theory Spec2Isabelle
  imports Main
begin

section \<open>Values of the program\<close>

text \<open>
  The two provider shapes of \<^verbatim>\<open>main.go\<close>. The field \<^verbatim>\<open>Service\<close> carries the tag
  \<^verbatim>\<open>json:"-"\<close>: the JSON codec neither reads nor writes it. The second record prefixes
  the two field names it shares with the first one.
\<close>

record AddressBrasil =
  Cep :: string
  State :: string
  City :: string
  Neighborhood :: string
  Street :: string
  Service :: string

record AddressViaCep =
  vCep :: string
  Uf :: string
  Localidade :: string
  Bairro :: string
  Logradouro :: string
  vService :: string

definition zeroBrasil :: AddressBrasil where
  "zeroBrasil = \<lparr>Cep = [], State = [], City = [], Neighborhood = [], Street = [], Service = []\<rparr>"

definition zeroViaCep :: AddressViaCep where
  "zeroViaCep = \<lparr>vCep = [], Uf = [], Localidade = [], Bairro = [], Logradouro = [], vService = []\<rparr>"

text \<open>
  Go error values, as far as the program can tell them apart: the two sentinels of package
  \<^verbatim>\<open>context\<close>, the timeout error of package \<^verbatim>\<open>net\<close> (its \<^verbatim>\<open>Is\<close> method answers
  true for \<^verbatim>\<open>context.DeadlineExceeded\<close>), an error that is only a text
  (\<^verbatim>\<open>errors.New\<close>, \<^verbatim>\<open>fmt.Errorf\<close> without \<^verbatim>\<open>%w\<close>, the errors of
  \<^verbatim>\<open>encoding/json\<close>), and an error with an \<^verbatim>\<open>Unwrap\<close> method (\<^verbatim>\<open>*url.Error\<close>,
  \<^verbatim>\<open>*net.OpError\<close>), given by its text and the error it wraps.
\<close>

datatype goerror =
    DeadlineExceeded
  | Canceled
  | NetTimeout
  | ErrorString string
  | Wrapper string goerror

fun Error :: "goerror \<Rightarrow> string" where
  "Error DeadlineExceeded = ''context deadline exceeded''"
| "Error Canceled = ''context canceled''"
| "Error NetTimeout = ''i/o timeout''"
| "Error (ErrorString s) = s"
| "Error (Wrapper s e) = s"

text \<open>\<^verbatim>\<open>errors.Is(err, context.DeadlineExceeded)\<close>: equality, the error's own
  \<^verbatim>\<open>Is\<close> method, then the same on what \<^verbatim>\<open>Unwrap\<close> returns.\<close>

fun errors_Is_DeadlineExceeded :: "goerror \<Rightarrow> bool" where
  "errors_Is_DeadlineExceeded DeadlineExceeded = True"
| "errors_Is_DeadlineExceeded NetTimeout = True"
| "errors_Is_DeadlineExceeded (Wrapper s e) = errors_Is_DeadlineExceeded e"
| "errors_Is_DeadlineExceeded Canceled = False"
| "errors_Is_DeadlineExceeded (ErrorString s) = False"

text \<open>\<^verbatim>\<open>fmt.Errorf(prefix + "%v", err)\<close>: the text of \<^verbatim>\<open>err\<close> is copied, the chain
  to \<^verbatim>\<open>err\<close> is not kept.\<close>

definition Errorf_v :: "string \<Rightarrow> goerror \<Rightarrow> goerror" where
  "Errorf_v prefix e = ErrorString (prefix @ Error e)"

section \<open>JSON documents and the decoder of \<^verbatim>\<open>encoding/json\<close>\<close>

datatype json =
    JNull
  | JBool bool
  | JNumber string
  | JString string
  | JArray "json list"
  | JObject "(string \<times> json) list"

fun json_kind :: "json \<Rightarrow> string" where
  "json_kind JNull = ''null''"
| "json_kind (JBool b) = ''bool''"
| "json_kind (JNumber n) = ''number''"
| "json_kind (JString s) = ''string''"
| "json_kind (JArray xs) = ''array''"
| "json_kind (JObject kvs) = ''object''"

text \<open>
  The decoder matches an object key with a field name up to case. For the ASCII names of
  this program that is: ASCII letters in upper case, and the two non-ASCII runes whose
  case orbit holds an ASCII letter, U+212A (Kelvin sign, UTF-8 \<^verbatim>\<open>E2 84 AA\<close>) as
  \<^verbatim>\<open>K\<close> and U+017F (long s, UTF-8 \<^verbatim>\<open>C5 BF\<close>) as \<^verbatim>\<open>S\<close>.
\<close>

definition to_upper :: "char \<Rightarrow> char" where
  "to_upper c =
     (case map_of (zip ''abcdefghijklmnopqrstuvwxyz'' ''ABCDEFGHIJKLMNOPQRSTUVWXYZ'') c of
        None \<Rightarrow> c
      | Some u \<Rightarrow> u)"

fun fold_name :: "string \<Rightarrow> string" where
  "fold_name (a # b # c # cs) =
     (if a = CHR 0xE2 \<and> b = CHR 0x84 \<and> c = CHR 0xAA
      then CHR ''K'' # fold_name cs
      else if a = CHR 0xC5 \<and> b = CHR 0xBF
      then CHR ''S'' # fold_name (c # cs)
      else to_upper a # fold_name (b # c # cs))"
| "fold_name [a, b] =
     (if a = CHR 0xC5 \<and> b = CHR 0xBF then ''S''
      else [to_upper a, to_upper b])"
| "fold_name [a] = [to_upper a]"
| "fold_name [] = []"

definition key_matches :: "string \<Rightarrow> string \<Rightarrow> bool" where
  "key_matches name key = (if key = name then True else fold_name key = fold_name name)"

text \<open>
  Storing one member value into a field of type \<^verbatim>\<open>string\<close>: a JSON string sets the
  field, \<^verbatim>\<open>null\<close> leaves it, any other value leaves it and is a type error. The decoder
  keeps the first type error and goes on with the next member.
\<close>

definition UnmarshalTypeError :: "string \<Rightarrow> string \<Rightarrow> goerror" where
  "UnmarshalTypeError kind field =
     ErrorString (''json: cannot unmarshal '' @ kind @ '' into Go struct field '' @ field
                  @ '' of type string'')"

definition save_error :: "goerror option \<Rightarrow> goerror \<Rightarrow> goerror option" where
  "save_error saved e = (case saved of None \<Rightarrow> Some e | Some e0 \<Rightarrow> Some e0)"

fun set_string :: "string \<Rightarrow> json \<Rightarrow> string \<Rightarrow> goerror option \<Rightarrow> string \<times> goerror option" where
  "set_string field (JString s) old saved = (s, saved)"
| "set_string field JNull old saved = (old, saved)"
| "set_string field v old saved = (old, save_error saved (UnmarshalTypeError (json_kind v) field))"

definition memberViaCep ::
  "string \<times> json \<Rightarrow> AddressViaCep \<times> goerror option \<Rightarrow> AddressViaCep \<times> goerror option" where
  "memberViaCep kv acc =
     (let (k, v) = kv; (a, saved) = acc in
      if key_matches ''cep'' k
      then (let (x, sv) = set_string ''AddressViaCep.cep'' v (vCep a) saved in (a\<lparr>vCep := x\<rparr>, sv))
      else if key_matches ''uf'' k
      then (let (x, sv) = set_string ''AddressViaCep.uf'' v (Uf a) saved in (a\<lparr>Uf := x\<rparr>, sv))
      else if key_matches ''localidade'' k
      then (let (x, sv) = set_string ''AddressViaCep.localidade'' v (Localidade a) saved
            in (a\<lparr>Localidade := x\<rparr>, sv))
      else if key_matches ''bairro'' k
      then (let (x, sv) = set_string ''AddressViaCep.bairro'' v (Bairro a) saved
            in (a\<lparr>Bairro := x\<rparr>, sv))
      else if key_matches ''logradouro'' k
      then (let (x, sv) = set_string ''AddressViaCep.logradouro'' v (Logradouro a) saved
            in (a\<lparr>Logradouro := x\<rparr>, sv))
      else (a, saved))"

definition memberBrasil ::
  "string \<times> json \<Rightarrow> AddressBrasil \<times> goerror option \<Rightarrow> AddressBrasil \<times> goerror option" where
  "memberBrasil kv acc =
     (let (k, v) = kv; (a, saved) = acc in
      if key_matches ''cep'' k
      then (let (x, sv) = set_string ''AddressBrasil.cep'' v (Cep a) saved in (a\<lparr>Cep := x\<rparr>, sv))
      else if key_matches ''state'' k
      then (let (x, sv) = set_string ''AddressBrasil.state'' v (State a) saved
            in (a\<lparr>State := x\<rparr>, sv))
      else if key_matches ''city'' k
      then (let (x, sv) = set_string ''AddressBrasil.city'' v (City a) saved in (a\<lparr>City := x\<rparr>, sv))
      else if key_matches ''neighborhood'' k
      then (let (x, sv) = set_string ''AddressBrasil.neighborhood'' v (Neighborhood a) saved
            in (a\<lparr>Neighborhood := x\<rparr>, sv))
      else if key_matches ''street'' k
      then (let (x, sv) = set_string ''AddressBrasil.street'' v (Street a) saved
            in (a\<lparr>Street := x\<rparr>, sv))
      else (a, saved))"

text \<open>
  The body handed to \<^verbatim>\<open>json.Unmarshal\<close> is given by what its bytes are: when they are
  not one JSON text, the text of the \<^verbatim>\<open>*json.SyntaxError\<close> that the decoder reports for
  them (it names the offending byte, or says that the input ended); the document
  otherwise. At the top level \<^verbatim>\<open>null\<close> leaves the struct as it is, an object is stored
  member by member in the order of the text, and any other value is a type error.
\<close>

datatype body = Malformed string | Document json

definition UnmarshalViaCep :: "body \<Rightarrow> AddressViaCep \<Rightarrow> AddressViaCep \<times> goerror option" where
  "UnmarshalViaCep body a =
     (case body of
        Malformed msg \<Rightarrow> (a, Some (ErrorString msg))
      | Document JNull \<Rightarrow> (a, None)
      | Document (JObject kvs) \<Rightarrow> foldl (\<lambda>acc kv. memberViaCep kv acc) (a, None) kvs
      | Document v \<Rightarrow>
          (a, Some (ErrorString (''json: cannot unmarshal '' @ json_kind v
                                 @ '' into Go value of type main.AddressViaCep''))))"

definition UnmarshalBrasil :: "body \<Rightarrow> AddressBrasil \<Rightarrow> AddressBrasil \<times> goerror option" where
  "UnmarshalBrasil body a =
     (case body of
        Malformed msg \<Rightarrow> (a, Some (ErrorString msg))
      | Document JNull \<Rightarrow> (a, None)
      | Document (JObject kvs) \<Rightarrow> foldl (\<lambda>acc kv. memberBrasil kv acc) (a, None) kvs
      | Document v \<Rightarrow>
          (a, Some (ErrorString (''json: cannot unmarshal '' @ json_kind v
                                 @ '' into Go value of type main.AddressBrasil''))))"

text \<open>The encoder writes the exported fields in declaration order under their tags.\<close>

definition MarshalBrasil :: "AddressBrasil \<Rightarrow> json" where
  "MarshalBrasil a =
     JObject [(''cep'', JString (Cep a)), (''state'', JString (State a)),
              (''city'', JString (City a)), (''neighborhood'', JString (Neighborhood a)),
              (''street'', JString (Street a))]"

definition MarshalViaCep :: "AddressViaCep \<Rightarrow> json" where
  "MarshalViaCep a =
     JObject [(''cep'', JString (vCep a)), (''uf'', JString (Uf a)),
              (''localidade'', JString (Localidade a)), (''bairro'', JString (Bairro a)),
              (''logradouro'', JString (Logradouro a))]"

section \<open>The upstream clients\<close>

text \<open>
  The two clients of \<^verbatim>\<open>main.go\<close>, lines 38 to 97. The printed response time is left
  out: it is written to the standard output and nothing reads it.

  What the outside world does with one outbound call, in the order the client meets it:
  \<^verbatim>\<open>http.NewRequestWithContext\<close> rejects the URL; \<^verbatim>\<open>http.DefaultClient.Do\<close> fails (no
  connection, or the context is done before the response head arrives); or a response
  head arrives with a status code and status text, and reading its body either fails or
  yields the body.
\<close>

datatype body_read = ReadError goerror | ReadOk body

datatype upstream =
    RequestInvalid goerror
  | DoError goerror
  | Response nat string body_read

text \<open>The world is asked with the URL the client built.\<close>

type_synonym world = "string \<Rightarrow> upstream"

definition requisicao_falhou :: string where
  "requisicao_falhou =
     ''requisi'' @ [CHR 0xC3, CHR 0xA7, CHR 0xC3, CHR 0xA3] @ ''o falhou: ''"

definition fetchFromBrasilAPI :: "world \<Rightarrow> string \<Rightarrow> AddressBrasil \<times> goerror option" where
  "fetchFromBrasilAPI net cep =
     (let url = ''https://brasilapi.com.br/api/cep/v1/'' @ cep in
      case net url of
        RequestInvalid err \<Rightarrow> (zeroBrasil, Some (Errorf_v ''error creating request: '' err))
      | DoError err \<Rightarrow> (zeroBrasil, Some err)
      | Response StatusCode Status rd \<Rightarrow>
          if StatusCode \<noteq> 200
          then (zeroBrasil, Some (ErrorString (requisicao_falhou @ Status)))
          else (case rd of
                  ReadError err \<Rightarrow> (zeroBrasil, Some (Errorf_v ''error reading response: '' err))
                | ReadOk body \<Rightarrow>
                    (case UnmarshalBrasil body zeroBrasil of
                       (address, Some err) \<Rightarrow>
                         (zeroBrasil, Some (Errorf_v ''error reading response: '' err))
                     | (address, None) \<Rightarrow> (address, None))))"

definition fetchFromViaCep :: "world \<Rightarrow> string \<Rightarrow> AddressViaCep \<times> goerror option" where
  "fetchFromViaCep net cep =
     (let url = ''https://viacep.com.br/ws/'' @ cep @ ''/json/'' in
      case net url of
        RequestInvalid err \<Rightarrow> (zeroViaCep, Some (Errorf_v ''error creating request: '' err))
      | DoError err \<Rightarrow> (zeroViaCep, Some err)
      | Response StatusCode Status rd \<Rightarrow>
          (case rd of
             ReadError err \<Rightarrow> (zeroViaCep, Some (Errorf_v ''error reading response: '' err))
           | ReadOk body \<Rightarrow>
               (case UnmarshalViaCep body zeroViaCep of
                  (address, Some err) \<Rightarrow>
                    (zeroViaCep, Some (Errorf_v ''error reading response: '' err))
                | (address, None) \<Rightarrow> (address, None))))"

section \<open>The response writer\<close>

text \<open>
  The \<^verbatim>\<open>http.ResponseWriter\<close> of one request: the header map, the status code given
  to the first \<^verbatim>\<open>WriteHeader\<close> (\<open>None\<close> while the handler has not written a status),
  and what was written to the body, in order. The encoder's output is kept as the document
  it serialises.
\<close>

datatype chunk = Text string | JsonLine json

record response_writer =
  header :: "string \<rightharpoonup> string"
  status :: "nat option"
  written :: "chunk list"

definition fresh_writer :: response_writer where
  "fresh_writer = \<lparr>header = Map.empty, status = None, written = []\<rparr>"

definition Header_Set :: "response_writer \<Rightarrow> string \<Rightarrow> string \<Rightarrow> response_writer" where
  "Header_Set rw k v = rw\<lparr>header := (header rw)(k \<mapsto> v)\<rparr>"

definition WriteHeader :: "response_writer \<Rightarrow> nat \<Rightarrow> response_writer" where
  "WriteHeader rw code = (if status rw = None then rw\<lparr>status := Some code\<rparr> else rw)"

definition Write :: "response_writer \<Rightarrow> chunk \<Rightarrow> response_writer" where
  "Write rw c = (let rw1 = WriteHeader rw 200 in rw1\<lparr>written := written rw1 @ [c]\<rparr>)"

definition newline :: string where
  "newline = [CHR 0x0A]"

text \<open>\<^verbatim>\<open>http.Error\<close>: two headers, the status, the message and a line end.\<close>

definition http_Error :: "response_writer \<Rightarrow> string \<Rightarrow> nat \<Rightarrow> response_writer" where
  "http_Error rw msg code =
     (let rw1 = Header_Set rw ''Content-Type'' ''text/plain; charset=utf-8'';
          rw2 = Header_Set rw1 ''X-Content-Type-Options'' ''nosniff'';
          rw3 = WriteHeader rw2 code
      in Write rw3 (Text (msg @ newline)))"

section \<open>The message of the rendezvous channel and the response mapper\<close>

text \<open>The dynamic value of the field \<^verbatim>\<open>Data interface{}\<close>: \<^verbatim>\<open>nil\<close>, one of the two
  address types, or a value of any other type.\<close>

datatype any = AnyNil | OfBrasil AddressBrasil | OfViaCep AddressViaCep | OfOther string

record resultadoAPI =
  Origem :: string
  Data :: any
  Err :: "goerror option"

text \<open>Encoding \<^verbatim>\<open>resultadoAPI{Origem: o, Data: d}\<close>: \<^verbatim>\<open>Err\<close> is nil and tagged
  \<^verbatim>\<open>omitempty\<close>, so the document has the two members \<^verbatim>\<open>origem\<close> and \<^verbatim>\<open>data\<close>.\<close>

definition envelope :: "string \<Rightarrow> json \<Rightarrow> json" where
  "envelope origem data = JObject [(''origem'', JString origem), (''data'', data)]"

definition Encode :: "response_writer \<Rightarrow> json \<Rightarrow> response_writer" where
  "Encode rw doc = Write rw (JsonLine doc)"

text \<open>Lines 127 to 158 of \<^verbatim>\<open>handleCEP\<close>. A Go \<^verbatim>\<open>switch\<close> does not fall through: when the
  type assertion of a \<^verbatim>\<open>case\<close> fails, control leaves the \<^verbatim>\<open>switch\<close> and the handler
  returns.\<close>

definition respond :: "resultadoAPI \<Rightarrow> response_writer \<Rightarrow> response_writer" where
  "respond result rw =
     (case Err result of
        Some err \<Rightarrow>
          if errors_Is_DeadlineExceeded err
          then http_Error rw ''Erro: tempo de espera excedido'' 408
          else http_Error rw (''Erro: '' @ Error err) 500
      | None \<Rightarrow>
          (let rw1 = Header_Set rw ''Content-Type'' ''application/json'' in
           if Origem result = ''viacep''
           then (case Data result of
                   OfViaCep data \<Rightarrow>
                     Encode (WriteHeader rw1 200) (envelope ''viacep'' (MarshalViaCep data))
                 | _ \<Rightarrow> rw1)
           else if Origem result = ''brasilapi''
           then (case Data result of
                   OfBrasil data \<Rightarrow>
                     Encode (WriteHeader rw1 200) (envelope ''brasilapi'' (MarshalBrasil data))
                 | _ \<Rightarrow> rw1)
           else http_Error rw1 ''Erro interno: tipo inesperado de resposta'' 500))"

text \<open>The messages the two goroutines build from what their client returned
  (lines 109 to 114 and 117 to 122).\<close>

definition resultBrasil :: "AddressBrasil \<times> goerror option \<Rightarrow> resultadoAPI" where
  "resultBrasil r =
     (case r of
        (brasil, Some errBrasil) \<Rightarrow> \<lparr>Origem = ''brasilapi'', Data = AnyNil, Err = Some errBrasil\<rparr>
      | (brasil, None) \<Rightarrow> \<lparr>Origem = ''brasilapi'', Data = OfBrasil brasil, Err = None\<rparr>)"

definition resultViaCep :: "AddressViaCep \<times> goerror option \<Rightarrow> resultadoAPI" where
  "resultViaCep r =
     (case r of
        (viacep, Some errVia) \<Rightarrow> \<lparr>Origem = ''viacep'', Data = AnyNil, Err = Some errVia\<rparr>
      | (viacep, None) \<Rightarrow> \<lparr>Origem = ''viacep'', Data = OfViaCep viacep, Err = None\<rparr>)"

section \<open>The handler and its two goroutines as a transition system\<close>

text \<open>\<^verbatim>\<open>strings.Split(s, "/")\<close> for a one-byte separator: the pieces between the
  separators, one piece more than there are separators.\<close>

fun strings_Split :: "string \<Rightarrow> char \<Rightarrow> string list" where
  "strings_Split [] sep = ['''']"
| "strings_Split (c # cs) sep =
     (if c = sep then [] # strings_Split cs sep
      else (case strings_Split cs sep of
              [] \<Rightarrow> [c] # []
            | p # ps \<Rightarrow> (c # p) # ps))"

datatype provider = BrasilAPI | ViaCep

text \<open>Where a goroutine stands: not started, inside its client call, at its send
  statement with the message it built, or returned.\<close>

datatype goroutine = NotStarted | Fetching | Sending resultadoAPI | Exited

text \<open>Where the handler stands, by the line of \<^verbatim>\<open>main.go\<close> it executes next.\<close>

datatype coord =
    Line100
  | Line108
  | Line116
  | Line125
  | Line126 resultadoAPI
  | Line127 resultadoAPI
  | Returned

text \<open>What the handler did besides writing the response, in order.\<close>

datatype event =
    WithTimeout nat
  | MakeChan nat
  | Go provider
  | Recv resultadoAPI
  | CancelCall

text \<open>
  The state of one request. \<open>resChan\<close> is the buffer of the channel; \<open>delivered\<close> is a
  history of every send with its sender and \<open>log\<close> a history of the handler's effects:
  no step reads them.
\<close>

record state =
  request_path :: string
  handler :: coord
  cep :: string
  brasilapi :: goroutine
  viacep :: goroutine
  resChan :: "resultadoAPI list"
  w :: response_writer
  delivered :: "(provider \<times> resultadoAPI) list"
  log :: "event list"

definition init :: "string \<Rightarrow> state" where
  "init path =
     \<lparr>request_path = path, handler = Line100, cep = [], brasilapi = NotStarted,
      viacep = NotStarted, resChan = [], w = fresh_writer, delivered = [], log = []\<rparr>"

definition resChan_cap :: nat where
  "resChan_cap = 2"

definition timeout_ms :: nat where
  "timeout_ms = 1000"

fun task :: "provider \<Rightarrow> state \<Rightarrow> goroutine" where
  "task BrasilAPI s = brasilapi s"
| "task ViaCep s = viacep s"

fun set_task :: "provider \<Rightarrow> goroutine \<Rightarrow> state \<Rightarrow> state" where
  "set_task BrasilAPI g s = s\<lparr>brasilapi := g\<rparr>"
| "set_task ViaCep g s = s\<lparr>viacep := g\<rparr>"

fun call_client :: "provider \<Rightarrow> world \<Rightarrow> string \<Rightarrow> resultadoAPI" where
  "call_client BrasilAPI net c = resultBrasil (fetchFromBrasilAPI net c)"
| "call_client ViaCep net c = resultViaCep (fetchFromViaCep net c)"

text \<open>
  The steps. \<open>Enter\<close> is lines 100 to 107, \<open>GoBrasil\<close> and \<open>GoViaCep\<close> the two
  \<^verbatim>\<open>go\<close> statements, \<open>FetchReturns p net\<close> the return of goroutine \<open>p\<close>'s client call
  in the world \<open>net\<close>, \<open>Send p\<close> its send statement, \<open>Receive\<close> line 125, \<open>Cancel\<close>
  line 126 and \<open>Respond\<close> lines 127 to 158. \<open>step a s = None\<close> says that \<open>a\<close> cannot
  happen in \<open>s\<close>: it is not that process's turn, or the process is blocked (a send on a
  full channel, a receive on an empty one).
\<close>

datatype action =
    Enter
  | GoBrasil
  | GoViaCep
  | FetchReturns provider world
  | Send provider
  | Receive
  | Cancel
  | Respond

definition usage :: string where
  "usage = ''Uso correto: /cep/{cep}''"

fun step :: "action \<Rightarrow> state \<Rightarrow> state option" where
  "step Enter s =
     (if handler s = Line100
      then (let parts = strings_Split (request_path s) (CHR ''/'') in
            if length parts \<noteq> 3 \<or> parts ! 2 = []
            then Some (s\<lparr>w := http_Error (w s) usage 400, handler := Returned\<rparr>)
            else Some (s\<lparr>cep := parts ! 2,
                         log := log s @ [WithTimeout timeout_ms, MakeChan resChan_cap],
                         handler := Line108\<rparr>))
      else None)"
| "step GoBrasil s =
     (if handler s = Line108
      then Some (s\<lparr>brasilapi := Fetching, log := log s @ [Go BrasilAPI], handler := Line116\<rparr>)
      else None)"
| "step GoViaCep s =
     (if handler s = Line116
      then Some (s\<lparr>viacep := Fetching, log := log s @ [Go ViaCep], handler := Line125\<rparr>)
      else None)"
| "step (FetchReturns p net) s =
     (case task p s of
        Fetching \<Rightarrow> Some (set_task p (Sending (call_client p net (cep s))) s)
      | _ \<Rightarrow> None)"
| "step (Send p) s =
     (case task p s of
        Sending m \<Rightarrow>
          if length (resChan s) < resChan_cap
          then Some (set_task p Exited
                       (s\<lparr>resChan := resChan s @ [m], delivered := delivered s @ [(p, m)]\<rparr>))
          else None
      | _ \<Rightarrow> None)"
| "step Receive s =
     (if handler s = Line125
      then (case resChan s of
              [] \<Rightarrow> None
            | result # rest \<Rightarrow>
                Some (s\<lparr>resChan := rest, log := log s @ [Recv result], handler := Line126 result\<rparr>))
      else None)"
| "step Cancel s =
     (case handler s of
        Line126 result \<Rightarrow> Some (s\<lparr>log := log s @ [CancelCall], handler := Line127 result\<rparr>)
      | _ \<Rightarrow> None)"
| "step Respond s =
     (case handler s of
        Line127 result \<Rightarrow> Some (s\<lparr>w := respond result (w s), handler := Returned\<rparr>)
      | _ \<Rightarrow> None)"

text \<open>A schedule is a list of actions; an action that cannot happen leaves the state as
  it is, so every schedule has a run and the runs reach exactly the states that the
  enabled steps reach.\<close>

definition move :: "state \<Rightarrow> action \<Rightarrow> state" where
  "move s a = (case step a s of None \<Rightarrow> s | Some s' \<Rightarrow> s')"

definition exec :: "action list \<Rightarrow> state \<Rightarrow> state" where
  "exec as s = foldl move s as"

text \<open>
  \<^verbatim>\<open>handleCEP\<close> as one function of the path and of the message it takes from the
  channel at line 125: what a run that has returned has written, whatever the schedule.
\<close>

definition handleCEP :: "string \<Rightarrow> resultadoAPI \<Rightarrow> response_writer \<Rightarrow> response_writer" where
  "handleCEP path result rw =
     (let parts = strings_Split path (CHR ''/'') in
      if length parts \<noteq> 3 \<or> parts ! 2 = []
      then http_Error rw usage 400
      else respond result rw)"

section \<open>Predicates and example inputs used in the statements\<close>

text \<open>
  The path as the interface describes it: a leading slash, then exactly two segments (one
  separator after the leading slash), the second one not empty (the path does not end
  in a separator).
\<close>

definition well_formed_path :: "string \<Rightarrow> bool" where
  "well_formed_path path =
     (case path of
        [] \<Rightarrow> False
      | c # rest \<Rightarrow> c = CHR ''/'' \<and> count_list rest (CHR ''/'') = 1 \<and> last rest \<noteq> CHR ''/'')"

text \<open>The test of line 101, on the path alone.\<close>

definition accepted :: "string \<Rightarrow> bool" where
  "accepted path =
     (let parts = strings_Split path (CHR ''/'') in \<not> (length parts \<noteq> 3 \<or> parts ! 2 = []))"

text \<open>The handler's effects up to the receive of a raced request.\<close>

definition race_log :: "event list" where
  "race_log = [WithTimeout timeout_ms, MakeChan resChan_cap, Go BrasilAPI, Go ViaCep]"

fun log_at :: "coord \<Rightarrow> event list" where
  "log_at Line100 = []"
| "log_at Line108 = take 2 race_log"
| "log_at Line116 = take 3 race_log"
| "log_at Line125 = race_log"
| "log_at (Line126 m) = race_log @ [Recv m]"
| "log_at (Line127 m) = race_log @ [Recv m, CancelCall]"
| "log_at Returned = []"

text \<open>The messages the handler took from the channel.\<close>

fun received :: "event list \<Rightarrow> resultadoAPI list" where
  "received [] = []"
| "received (Recv m # es) = m # received es"
| "received (e # es) = received es"

fun at_send :: "goroutine \<Rightarrow> bool" where
  "at_send (Sending m) = True"
| "at_send g = False"

fun origin :: "provider \<Rightarrow> string" where
  "origin BrasilAPI = ''brasilapi''"
| "origin ViaCep = ''viacep''"

fun payload_of :: "provider \<Rightarrow> any \<Rightarrow> bool" where
  "payload_of BrasilAPI (OfBrasil a) = True"
| "payload_of ViaCep (OfViaCep a) = True"
| "payload_of p d = False"

text \<open>The shape of a message built by goroutine \<open>p\<close>: its origin, and either an error
  with \<^verbatim>\<open>nil\<close> data or no error with \<open>p\<close>'s address type.\<close>

definition built_by :: "provider \<Rightarrow> resultadoAPI \<Rightarrow> bool" where
  "built_by p m =
     (Origem m = origin p \<and>
      (case Err m of Some e \<Rightarrow> Data m = AnyNil | None \<Rightarrow> payload_of p (Data m)))"

text \<open>A written response with status 200, the JSON content type and one document.\<close>

definition ok_json :: "response_writer \<Rightarrow> json \<Rightarrow> bool" where
  "ok_json rw doc =
     (status rw = Some 200 \<and> header rw ''Content-Type'' = Some ''application/json''
      \<and> written rw = [JsonLine doc])"

text \<open>A key that the decoder stores into a field of \<^verbatim>\<open>AddressViaCep\<close>, the members of
  a document, and a document none of whose members is such a key.\<close>

definition viacep_field :: "string \<Rightarrow> bool" where
  "viacep_field k =
     (key_matches ''cep'' k \<or> key_matches ''uf'' k \<or> key_matches ''localidade'' k
      \<or> key_matches ''bairro'' k \<or> key_matches ''logradouro'' k)"

fun members :: "json \<Rightarrow> (string \<times> json) list" where
  "members (JObject kvs) = kvs"
| "members v = []"

definition no_address_fields :: "json \<Rightarrow> bool" where
  "no_address_fields doc = list_all (\<lambda>kv. \<not> viacep_field (fst kv)) (members doc)"

fun object_or_null :: "json \<Rightarrow> bool" where
  "object_or_null (JObject kvs) = True"
| "object_or_null JNull = True"
| "object_or_null v = False"

text \<open>How far the handler has come, and the schedule that lets every process take each
  of its steps once, in program order: whatever has happened before, it runs the request
  to its end.\<close>

fun stage :: "coord \<Rightarrow> nat" where
  "stage Line100 = 0"
| "stage Line108 = 1"
| "stage Line116 = 2"
| "stage Line125 = 3"
| "stage (Line126 m) = 4"
| "stage (Line127 m) = 5"
| "stage Returned = 6"

definition finish :: "world \<Rightarrow> world \<Rightarrow> action list" where
  "finish netB netV =
     [Enter, GoBrasil, GoViaCep, FetchReturns BrasilAPI netB, Send BrasilAPI,
      FetchReturns ViaCep netV, Send ViaCep, Receive, Cancel, Respond]"

subsection \<open>The invariant of the transition system\<close>

text \<open>
  A goroutine has started exactly when its \<^verbatim>\<open>go\<close> statement is in the log, has exited
  exactly when it has delivered, and stands at its send statement with a message of its
  own shape.
\<close>

definition task_ok ::
  "provider \<Rightarrow> goroutine \<Rightarrow> event list \<Rightarrow> (provider \<times> resultadoAPI) list \<Rightarrow> bool" where
  "task_ok p g l d =
     ((g = NotStarted) = (Go p \<notin> set l) \<and>
      (g = Exited) = (p \<in> set (map fst d)) \<and>
      (case g of Sending m \<Rightarrow> built_by p m | _ \<Rightarrow> True))"

definition task_inv :: "provider \<Rightarrow> state \<Rightarrow> bool" where
  "task_inv p s = task_ok p (task p s) (log s) (delivered s)"

text \<open>The log follows the handler's position, and the writer is untouched until the
  handler returns.\<close>

definition handler_ok :: "coord \<Rightarrow> event list \<Rightarrow> response_writer \<Rightarrow> bool" where
  "handler_ok c l rw =
     (if c = Returned
      then (case received l of
              [] \<Rightarrow> l = [] \<and> rw = http_Error fresh_writer usage 400
            | m # ms \<Rightarrow> l = race_log @ [Recv m, CancelCall] \<and> rw = respond m fresh_writer)
      else l = log_at c \<and> rw = fresh_writer)"

definition handler_inv :: "state \<Rightarrow> bool" where
  "handler_inv s = handler_ok (handler s) (log s) (w s)"

definition path_ok :: "coord \<Rightarrow> event list \<Rightarrow> string \<Rightarrow> string \<Rightarrow> bool" where
  "path_ok c l path code =
     (if l = [] then c = Line100 \<or> (c = Returned \<and> \<not> accepted path)
      else accepted path \<and> code = strings_Split path (CHR ''/'') ! 2)"

definition path_inv :: "state \<Rightarrow> bool" where
  "path_inv s = path_ok (handler s) (log s) (request_path s) (cep s)"

text \<open>Every goroutine delivers at most once, every delivered message has its sender's
  shape, and what was delivered is what the handler received followed by what is still
  in the buffer.\<close>

definition chan_inv :: "state \<Rightarrow> bool" where
  "chan_inv s =
     (distinct (map fst (delivered s))
      \<and> list_all (\<lambda>pm. built_by (fst pm) (snd pm)) (delivered s)
      \<and> map snd (delivered s) = received (log s) @ resChan s)"

definition invariant :: "state \<Rightarrow> bool" where
  "invariant s =
     (handler_inv s \<and> path_inv s \<and> task_inv BrasilAPI s \<and> task_inv ViaCep s \<and> chan_inv s)"

text \<open>The states reached by enabled steps only.\<close>

inductive reachable :: "string \<Rightarrow> state \<Rightarrow> bool" for path :: string where
  start: "reachable path (init path)"
| next_state: "reachable path s \<Longrightarrow> step a s = Some s' \<Longrightarrow> reachable path s'"

subsection \<open>Example worlds, schedules and messages\<close>

text \<open>
  One request for \<^verbatim>\<open>/cep/01001000\<close> and what the providers may do with it: answer 503
  with an HTML page as body, answer 200 with an address, fail because the context was
  cancelled, answer 500 with a JSON object, answer 200 and stall in the body until the
  deadline, answer 200 with an array, answer 200 with ViaCep's body for an unknown code,
  and answer 200 with an empty body.
\<close>

definition example_path :: string where
  "example_path = ''/cep/01001000''"

definition html_syntax_error :: string where
  "html_syntax_error =
     ''invalid character '' @ [CHR 0x27] @ ''<'' @ [CHR 0x27] @ '' looking for beginning of value''"

definition net_unavailable :: world where
  "net_unavailable =
     (\<lambda>url. Response 503 ''503 Service Unavailable'' (ReadOk (Malformed html_syntax_error)))"

definition net_found_viacep :: world where
  "net_found_viacep =
     (\<lambda>url. Response 200 ''200 OK''
        (ReadOk (Document (JObject [(''cep'', JString ''01001-000''), (''logradouro'', JString ''Praca da Se''),
                                (''bairro'', JString ''Se''), (''localidade'', JString ''Sao Paulo''),
                                (''uf'', JString ''SP''), (''ibge'', JString ''3550308'')]))))"

definition net_canceled :: world where
  "net_canceled =
     (\<lambda>url. DoError (Wrapper (''Get '' @ [CHR 0x22] @ url @ [CHR 0x22] @ '': context canceled'')
                          Canceled))"

definition net_error_json :: world where
  "net_error_json =
     (\<lambda>url. Response 500 ''500 Internal Server Error''
        (ReadOk (Document (JObject [(''message'', JString ''internal error'')]))))"

definition net_slow_body :: world where
  "net_slow_body = (\<lambda>url. Response 200 ''200 OK'' (ReadError DeadlineExceeded))"

definition net_array_body :: world where
  "net_array_body = (\<lambda>url. Response 200 ''200 OK'' (ReadOk (Document (JArray []))))"

definition net_unknown_cep :: world where
  "net_unknown_cep =
     (\<lambda>url. Response 200 ''200 OK'' (ReadOk (Document (JObject [(''erro'', JBool True)]))))"

definition net_not_json :: world where
  "net_not_json =
     (\<lambda>url. Response 200 ''200 OK'' (ReadOk (Malformed ''unexpected end of JSON input'')))"

definition schedule_failure_first :: "action list" where
  "schedule_failure_first =
     [Enter, GoBrasil, GoViaCep, FetchReturns BrasilAPI net_unavailable, Send BrasilAPI, Receive,
      Cancel, FetchReturns ViaCep net_found_viacep, Send ViaCep, Respond]"

definition schedule_success_first :: "action list" where
  "schedule_success_first =
     [Enter, GoBrasil, GoViaCep, FetchReturns ViaCep net_found_viacep, Send ViaCep, Receive,
      Cancel, FetchReturns BrasilAPI net_canceled, Send BrasilAPI, Respond]"

definition schedule_slow_body :: "action list" where
  "schedule_slow_body =
     [Enter, GoBrasil, GoViaCep, FetchReturns BrasilAPI net_slow_body, Send BrasilAPI, Receive,
      Cancel, Respond]"

definition msg_unavailable :: resultadoAPI where
  "msg_unavailable =
     \<lparr>Origem = ''brasilapi'', Data = AnyNil,
      Err = Some (ErrorString (requisicao_falhou @ ''503 Service Unavailable''))\<rparr>"

definition msg_found_viacep :: resultadoAPI where
  "msg_found_viacep =
     \<lparr>Origem = ''viacep'',
      Data = OfViaCep \<lparr>vCep = ''01001-000'', Uf = ''SP'', Localidade = ''Sao Paulo'', Bairro = ''Se'',
                       Logradouro = ''Praca da Se'', vService = []\<rparr>,
      Err = None\<rparr>"


text \<open>
  More of the same: BrasilAPI answers 200 with an address; BrasilAPI's message is the
  first; the handler has returned while BrasilAPI still stands at its send statement; the
  message of a cancelled call; a message from no known origin; and the steps that make
  ViaCep's message the first one.
\<close>

definition net_found_brasil :: world where
  "net_found_brasil =
     (\<lambda>url. Response 200 ''200 OK''
        (ReadOk (Document (JObject [(''cep'', JString ''01001000''), (''state'', JString ''SP''),
                                    (''city'', JString ''Sao Paulo''), (''neighborhood'', JString ''Se''),
                                    (''street'', JString ''Praca da Se''),
                                    (''service'', JString ''correios'')]))))"

definition msg_found_brasil :: resultadoAPI where
  "msg_found_brasil =
     \<lparr>Origem = ''brasilapi'',
      Data = OfBrasil \<lparr>Cep = ''01001000'', State = ''SP'', City = ''Sao Paulo'', Neighborhood = ''Se'',
                       Street = ''Praca da Se'', Service = []\<rparr>,
      Err = None\<rparr>"

definition schedule_brasil_first :: "action list" where
  "schedule_brasil_first =
     [Enter, GoBrasil, GoViaCep, FetchReturns BrasilAPI net_found_brasil, Send BrasilAPI, Receive,
      Cancel, Respond]"

definition schedule_loser_late :: "action list" where
  "schedule_loser_late =
     [Enter, GoBrasil, GoViaCep, FetchReturns ViaCep net_found_viacep, Send ViaCep, Receive,
      Cancel, Respond, FetchReturns BrasilAPI net_canceled]"

definition msg_canceled :: resultadoAPI where
  "msg_canceled =
     \<lparr>Origem = ''brasilapi'', Data = AnyNil,
      Err = Some (Wrapper (''Get '' @ [CHR 0x22] @ ''https://brasilapi.com.br/api/cep/v1/01001000''
                           @ [CHR 0x22] @ '': context canceled'') Canceled)\<rparr>"


definition viacep_first :: "world \<Rightarrow> action list" where
  "viacep_first net = [Enter, GoBrasil, GoViaCep, FetchReturns ViaCep net, Send ViaCep]"

section \<open>Lemmas\<close>

subsection \<open>Splitting a path\<close>

lemma strings_Split_not_Nil: "strings_Split s c \<noteq> []"
  by (induction s) (auto split: list.splits)

lemma length_strings_Split: "length (strings_Split s c) = Suc (count_list s c)"
  by (induction s) (auto simp: strings_Split_not_Nil split: list.splits)

lemma strings_Split_single: "(strings_Split s c = ['''']) = (s = [])"
  by (cases s) (auto simp: strings_Split_not_Nil split: list.splits)

lemma last_strings_Split: "(last (strings_Split s c) = []) = (s = [] \<or> last s = c)"
  by (induction s) (auto simp: strings_Split_not_Nil strings_Split_single split: list.splits)

lemma accepted_iff_well_formed: "accepted (CHR ''/'' # rest) = well_formed_path (CHR ''/'' # rest)"
proof -
  let ?ps = "strings_Split rest (CHR ''/'')"
  have "length ?ps = 2 \<Longrightarrow> ([] # ?ps) ! 2 = last ?ps"
    by (cases ?ps rule: rev_cases) (auto simp: nth_append)
  moreover have "count_list rest (CHR ''/'') = 1 \<Longrightarrow> rest \<noteq> []" by auto
  ultimately show ?thesis
    using last_strings_Split [of rest "CHR ''/''"]
    by (auto simp: accepted_def well_formed_path_def length_strings_Split)
qed

subsection \<open>The decoder and the response mapper\<close>

lemmas writer_defs = respond_def http_Error_def Write_def WriteHeader_def Header_Set_def
  fresh_writer_def Encode_def newline_def

lemma memberViaCep_other: "\<not> viacep_field (fst kv) \<Longrightarrow> memberViaCep kv acc = acc"
  by (cases kv; cases acc) (simp add: memberViaCep_def viacep_field_def)

lemma foldl_memberViaCep_other:
  "list_all (\<lambda>kv. \<not> viacep_field (fst kv)) kvs \<Longrightarrow>
   foldl (\<lambda>acc kv. memberViaCep kv acc) acc kvs = acc"
  by (induction kvs arbitrary: acc) (simp_all add: memberViaCep_other)

lemma Unmarshal_no_address_fields:
  "object_or_null doc \<Longrightarrow> no_address_fields doc \<Longrightarrow> UnmarshalViaCep (Document doc) a = (a, None)"
  by (cases doc) (simp_all add: UnmarshalViaCep_def no_address_fields_def foldl_memberViaCep_other)

lemma respond_viacep_success:
  "ok_json (respond \<lparr>Origem = ''viacep'', Data = OfViaCep a, Err = None\<rparr> fresh_writer)
     (envelope ''viacep'' (MarshalViaCep a))"
  by (simp add: ok_json_def writer_defs)

lemma respond_brasil_success:
  "ok_json (respond \<lparr>Origem = ''brasilapi'', Data = OfBrasil a, Err = None\<rparr> fresh_writer)
     (envelope ''brasilapi'' (MarshalBrasil a))"
  by (simp add: ok_json_def writer_defs)

lemma built_by_call_client: "built_by p (call_client p net c)"
  by (cases p)
     (auto simp: built_by_def resultBrasil_def resultViaCep_def split: prod.splits option.splits)

subsection \<open>Every step keeps the invariant\<close>

lemmas inv_defs = invariant_def handler_inv_def path_inv_def task_inv_def chan_inv_def

lemmas ok_defs = handler_ok_def path_ok_def task_ok_def

lemma invariant_init: "invariant (init path)"
  by (simp add: inv_defs ok_defs init_def)

lemma received_append: "received (xs @ ys) = received xs @ received ys"
  by (induction xs rule: received.induct) auto

lemma step_Enter_inv:
  assumes "step Enter s = Some s'" and "invariant s"
  shows "invariant s'"
proof -
  from assms(1) have h: "handler s = Line100" by (simp split: if_splits)
  with assms(2) have l: "log s = []" "w s = fresh_writer"
    by (simp_all add: inv_defs ok_defs)
  show ?thesis
  proof (cases "accepted (request_path s)")
    case True
    with assms(1) h have s': "s' = s\<lparr>cep := strings_Split (request_path s) (CHR ''/'') ! 2,
        log := log s @ [WithTimeout timeout_ms, MakeChan resChan_cap], handler := Line108\<rparr>"
      by (simp add: accepted_def Let_def split: if_splits)
    show ?thesis using assms(2) True l unfolding s' invariant_def
      by (auto simp: inv_defs ok_defs race_log_def)
  next
    case False
    with assms(1) h have s': "s' = s\<lparr>w := http_Error (w s) usage 400, handler := Returned\<rparr>"
      by (simp add: accepted_def Let_def split: if_splits)
    show ?thesis using assms(2) False l unfolding s' invariant_def
      by (auto simp: inv_defs ok_defs)
  qed
qed

lemma step_GoBrasil_inv:
  assumes "step GoBrasil s = Some s'" and "invariant s"
  shows "invariant s'"
proof -
  from assms(1) have h: "handler s = Line108"
    and s': "s' = s\<lparr>brasilapi := Fetching, log := log s @ [Go BrasilAPI], handler := Line116\<rparr>"
    by (simp_all split: if_splits)
  from assms(2) h have l: "log s = take 2 race_log" "w s = fresh_writer"
    by (simp_all add: inv_defs ok_defs)
  show ?thesis using assms(2) h l unfolding s' invariant_def
    by (auto simp: inv_defs ok_defs race_log_def)
qed

lemma step_GoViaCep_inv:
  assumes "step GoViaCep s = Some s'" and "invariant s"
  shows "invariant s'"
proof -
  from assms(1) have h: "handler s = Line116"
    and s': "s' = s\<lparr>viacep := Fetching, log := log s @ [Go ViaCep], handler := Line125\<rparr>"
    by (simp_all split: if_splits)
  from assms(2) h have l: "log s = take 3 race_log" "w s = fresh_writer"
    by (simp_all add: inv_defs ok_defs)
  show ?thesis using assms(2) h l unfolding s' invariant_def
    by (auto simp: inv_defs ok_defs race_log_def)
qed

lemma step_FetchReturns_inv:
  assumes "step (FetchReturns p net) s = Some s'" and "invariant s"
  shows "invariant s'"
proof -
  from assms(1) have t: "task p s = Fetching"
    and s': "s' = set_task p (Sending (call_client p net (cep s))) s"
    by (auto split: goroutine.splits)
  have b: "built_by BrasilAPI (resultBrasil (fetchFromBrasilAPI net (cep s)))"
    "built_by ViaCep (resultViaCep (fetchFromViaCep net (cep s)))"
    using built_by_call_client [of BrasilAPI net "cep s"] built_by_call_client [of ViaCep net "cep s"]
    by simp_all
  show ?thesis
    using assms(2) t b unfolding s' invariant_def
    by (cases p) (auto simp: inv_defs task_ok_def)
qed

lemma step_Send_inv:
  assumes "step (Send p) s = Some s'" and "invariant s"
  shows "invariant s'"
proof -
  from assms(1) obtain m where t: "task p s = Sending m"
    and s': "s' = set_task p Exited (s\<lparr>resChan := resChan s @ [m], delivered := delivered s @ [(p, m)]\<rparr>)"
    by (auto split: goroutine.splits if_splits)
  show ?thesis
    using assms(2) t unfolding s' invariant_def
    by (cases p) (auto simp: inv_defs task_ok_def)
qed

lemma step_Receive_inv:
  assumes "step Receive s = Some s'" and "invariant s"
  shows "invariant s'"
proof -
  from assms(1) obtain m rest where h: "handler s = Line125" and c: "resChan s = m # rest"
    and s': "s' = s\<lparr>resChan := rest, log := log s @ [Recv m], handler := Line126 m\<rparr>"
    by (auto split: list.splits if_splits)
  from assms(2) h have l: "log s = race_log" "w s = fresh_writer"
    by (simp_all add: inv_defs ok_defs)
  show ?thesis
    using assms(2) h c l unfolding s' invariant_def
    by (auto simp: inv_defs ok_defs race_log_def)
qed

lemma step_Cancel_inv:
  assumes "step Cancel s = Some s'" and "invariant s"
  shows "invariant s'"
proof -
  from assms(1) obtain m where h: "handler s = Line126 m"
    and s': "s' = s\<lparr>log := log s @ [CancelCall], handler := Line127 m\<rparr>"
    by (auto split: coord.splits)
  from assms(2) h have l: "log s = race_log @ [Recv m]" "w s = fresh_writer"
    by (simp_all add: inv_defs ok_defs)
  show ?thesis
    using assms(2) h l unfolding s' invariant_def
    by (auto simp: inv_defs ok_defs race_log_def)
qed

lemma step_Respond_inv:
  assumes "step Respond s = Some s'" and "invariant s"
  shows "invariant s'"
proof -
  from assms(1) obtain m where h: "handler s = Line127 m"
    and s': "s' = s\<lparr>w := respond m (w s), handler := Returned\<rparr>"
    by (auto split: coord.splits)
  from assms(2) h have l: "log s = race_log @ [Recv m, CancelCall]" "w s = fresh_writer"
    by (simp_all add: inv_defs ok_defs)
  show ?thesis
    using assms(2) h l unfolding s' invariant_def
    by (auto simp: inv_defs ok_defs race_log_def)
qed

lemma step_inv: "step a s = Some s' \<Longrightarrow> invariant s \<Longrightarrow> invariant s'"
  by (cases a)
     (blast intro: step_Enter_inv step_GoBrasil_inv step_GoViaCep_inv step_FetchReturns_inv
        step_Send_inv step_Receive_inv step_Cancel_inv step_Respond_inv)+

lemma move_inv: "invariant s \<Longrightarrow> invariant (move s a)"
  by (auto simp: move_def dest: step_inv split: option.splits)

lemma exec_inv: "invariant s \<Longrightarrow> invariant (exec as s)"
  unfolding exec_def by (induction as arbitrary: s) (simp_all add: move_inv)

lemma invariant_exec_init: "invariant (exec as (init path))"
  by (rule exec_inv [OF invariant_init])

subsection \<open>What the invariant gives\<close>

lemma provider_list_short:
  "distinct (ps :: provider list) \<Longrightarrow> p \<notin> set ps \<Longrightarrow> length ps \<le> 1"
proof -
  assume d: "distinct ps" and n: "p \<notin> set ps"
  have "UNIV = {BrasilAPI, ViaCep}" using provider.exhaust by auto
  then have "set ps \<subseteq> {BrasilAPI, ViaCep} - {p}" using n by auto
  then have "card (set ps) \<le> card ({BrasilAPI, ViaCep} - {p})"
    by (intro card_mono) auto
  also have "\<dots> \<le> 1" by (cases p) auto
  finally show ?thesis using d by (simp add: distinct_card)
qed

lemma provider_list_two: "distinct (ps :: provider list) \<Longrightarrow> length ps \<le> 2"
proof -
  assume d: "distinct ps"
  have "UNIV = {BrasilAPI, ViaCep}" using provider.exhaust by auto
  then have "set ps \<subseteq> {BrasilAPI, ViaCep}" by auto
  then have "card (set ps) \<le> card {BrasilAPI, ViaCep}" by (intro card_mono) auto
  then show ?thesis using d by (simp add: distinct_card)
qed

lemma no_provider_no_entry: "BrasilAPI \<notin> set ps \<Longrightarrow> ViaCep \<notin> set ps \<Longrightarrow> ps = []"
proof (cases ps)
  case (Cons x xs)
  then show "BrasilAPI \<notin> set ps \<Longrightarrow> ViaCep \<notin> set ps \<Longrightarrow> ps = []"
    by (cases x) simp_all
qed simp

lemma count_list_distinct: "distinct xs \<Longrightarrow> count_list xs x = (if x \<in> set xs then 1 else 0)"
  by (induction xs) auto

lemma sender_finds_room:
  assumes "invariant s" and "task p s = Sending m"
  shows "length (resChan s) < resChan_cap"
proof -
  from assms have "p \<notin> set (map fst (delivered s))"
    by (cases p) (auto simp: inv_defs task_ok_def)
  moreover from assms(1) have "distinct (map fst (delivered s))"
    and "map snd (delivered s) = received (log s) @ resChan s"
    by (simp_all add: inv_defs)
  ultimately have "length (map fst (delivered s)) \<le> 1"
    and "length (map snd (delivered s)) = length (received (log s)) + length (resChan s)"
    using provider_list_short [of "map fst (delivered s)" p] by simp_all
  then show ?thesis by (simp add: resChan_cap_def)
qed

lemma returned_race:
  assumes "invariant s" and "handler s = Returned" and "delivered s = (p, m) # rest"
  shows "log s = race_log @ [Recv m, CancelCall]" and "w s = respond m fresh_writer"
proof -
  from assms have "task p s = Exited"
    by (cases p) (auto simp: inv_defs task_ok_def)
  with assms(1) have "Go p \<in> set (log s)"
    by (cases p) (auto simp: inv_defs task_ok_def)
  then have "log s \<noteq> []" by auto
  moreover from assms(1,3) have "m # map snd rest = received (log s) @ resChan s"
    by (simp add: inv_defs)
  ultimately show "log s = race_log @ [Recv m, CancelCall]" and "w s = respond m fresh_writer"
    using assms(1,2)
    by (auto simp: inv_defs handler_ok_def received_append race_log_def split: list.splits)
qed

lemma delivered_built_by:
  assumes "invariant s" and "delivered s = (p, m) # rest"
  shows "built_by p m"
  using assms by (simp add: inv_defs)

lemma received_at_most_one:
  assumes "invariant s"
  shows "length (received (log s)) \<le> 1"
proof (cases "handler s = Returned")
  case True
  with assms show ?thesis
    by (auto simp: inv_defs handler_ok_def received_append race_log_def split: list.splits)
next
  case False
  with assms have "log s = log_at (handler s)"
    by (simp add: inv_defs handler_ok_def)
  then show ?thesis
    by (cases "handler s") (simp_all add: race_log_def)
qed

lemma count_log_at:
  "count_list (log_at c) CancelCall = (case c of Line127 m \<Rightarrow> 1 | _ \<Rightarrow> 0)"
  by (cases c) (simp_all add: race_log_def)

subsection \<open>Frames and progress\<close>

lemma step_request_path: "step a s = Some s' \<Longrightarrow> request_path s' = request_path s"
proof (cases a)
  case (FetchReturns p net)
  then show "step a s = Some s' \<Longrightarrow> request_path s' = request_path s"
    by (cases p) (auto split: goroutine.splits)
next
  case (Send p)
  then show "step a s = Some s' \<Longrightarrow> request_path s' = request_path s"
    by (cases p) (auto split: goroutine.splits if_splits)
qed (auto simp: Let_def split: if_splits list.splits coord.splits)

lemma exec_request_path: "request_path (exec as s) = request_path s"
  unfolding exec_def
  by (induction as arbitrary: s)
     (auto simp: move_def step_request_path split: option.splits)

lemma step_leaves_entry: "step a s = Some s' \<Longrightarrow> handler s \<noteq> Line100 \<Longrightarrow> handler s' \<noteq> Line100"
proof (cases a)
  case (FetchReturns p net)
  then show "step a s = Some s' \<Longrightarrow> handler s \<noteq> Line100 \<Longrightarrow> handler s' \<noteq> Line100"
    by (cases p) (auto split: goroutine.splits)
next
  case (Send p)
  then show "step a s = Some s' \<Longrightarrow> handler s \<noteq> Line100 \<Longrightarrow> handler s' \<noteq> Line100"
    by (cases p) (auto split: goroutine.splits if_splits)
qed (auto simp: Let_def split: if_splits list.splits coord.splits)

lemma exec_leaves_entry: "handler s \<noteq> Line100 \<Longrightarrow> handler (exec as s) \<noteq> Line100"
  unfolding exec_def
  by (induction as arbitrary: s)
     (auto simp: move_def dest: step_leaves_entry split: option.splits)

lemma exec_Cons: "exec (a # as) s = exec as (move s a)"
  by (simp add: exec_def)

lemma entered: "handler (exec (Enter # as) (init path)) \<noteq> Line100"
proof -
  have "handler (move (init path) Enter) \<noteq> Line100"
    by (simp add: move_def init_def Let_def)
  then show ?thesis unfolding exec_Cons by (rule exec_leaves_entry)
qed

lemma task_set_task: "task p (set_task p g s) = g"
  by (cases p) simp_all

lemma set_task_frame:
  "resChan (set_task p g s) = resChan s" "delivered (set_task p g s) = delivered s"
  "log (set_task p g s) = log s" "handler (set_task p g s) = handler s"
  by (cases p; simp)+

lemma send_enabled:
  assumes "invariant s"
  shows "(step (Send p) s \<noteq> None) = at_send (task p s)"
proof (cases "task p s")
  case (Sending m)
  with sender_finds_room [OF assms this] show ?thesis by simp
qed simp_all

lemma task_runs_to_exit:
  assumes "invariant s"
  shows "(task p (exec [FetchReturns p net, Send p] s) = Exited) = (task p s \<noteq> NotStarted)"
proof (cases "task p s")
  case Fetching
  let ?s1 = "set_task p (Sending (call_client p net (cep s))) s"
  from Fetching have st: "step (FetchReturns p net) s = Some ?s1" by simp
  then have "invariant ?s1" using assms by (rule step_inv)
  moreover have t1: "task p ?s1 = Sending (call_client p net (cep s))"
    by (simp add: task_set_task)
  ultimately have "length (resChan ?s1) < resChan_cap" by (rule sender_finds_room)
  with st t1 Fetching show ?thesis
    by (simp add: exec_def move_def task_set_task set_task_frame)
next
  case (Sending m)
  with sender_finds_room [OF assms this] show ?thesis
    by (simp add: exec_def move_def task_set_task)
qed (simp_all add: exec_def move_def)

subsection \<open>Schedules and reachable states\<close>

lemma exec_snoc: "exec (as @ [a]) s = move (exec as s) a"
  by (simp add: exec_def)

lemma reachable_exec: "reachable path (exec as (init path))"
proof (induction as rule: rev_induct)
  case Nil
  show ?case by (simp add: exec_def reachable.start)
next
  case (snoc a as)
  show ?case
  proof (cases "step a (exec as (init path))")
    case None
    with snoc show ?thesis by (simp add: exec_snoc move_def)
  next
    case (Some s')
    with snoc have "reachable path s'" by (blast intro: reachable.next_state)
    with Some show ?thesis by (simp add: exec_snoc move_def)
  qed
qed

lemma exec_reachable: "reachable path s \<Longrightarrow> \<exists>as. s = exec as (init path)"
proof (induction rule: reachable.induct)
  case start
  have "init path = exec [] (init path)" by (simp add: exec_def)
  then show ?case by blast
next
  case (next_state s a s')
  then obtain as where "s = exec as (init path)" by blast
  with next_state(2) have "s' = exec (as @ [a]) (init path)"
    by (simp add: exec_snoc move_def)
  then show ?case by blast
qed

lemma returned_is_handleCEP:
  assumes "handler (exec as (init path)) = Returned"
  shows "w (exec as (init path))
         = handleCEP path (snd (hd (delivered (exec as (init path))))) fresh_writer"
proof -
  define s where "s = exec as (init path)"
  have i: "invariant s"
    by (simp add: s_def invariant_exec_init)
  have r: "request_path s = path"
    by (simp add: s_def exec_request_path init_def)
  have h: "handler s = Returned"
    using assms by (simp add: s_def)
  show ?thesis
  proof (cases "accepted path")
    case True
    from i r h True have "log s \<noteq> []"
      by (auto simp: inv_defs path_ok_def split: if_splits)
    with i h obtain m where l: "log s = race_log @ [Recv m, CancelCall]"
      and rw: "w s = respond m fresh_writer"
      by (auto simp: inv_defs handler_ok_def split: list.splits)
    from i l have "map snd (delivered s) = m # resChan s"
      by (simp add: inv_defs received_append race_log_def)
    then have "snd (hd (delivered s)) = m"
      by (cases "delivered s") auto
    with rw True show ?thesis
      by (simp add: s_def [symmetric] handleCEP_def accepted_def Let_def)
  next
    case False
    with i r have "log s = []"
      by (auto simp: inv_defs path_ok_def split: if_splits)
    with i h have "w s = http_Error fresh_writer usage 400"
      by (simp add: inv_defs handler_ok_def)
    with False show ?thesis
      by (simp add: s_def [symmetric] handleCEP_def accepted_def Let_def)
  qed
qed

subsection \<open>The failure branch of the response mapper\<close>

lemma respond_error:
  "Err m = Some e \<Longrightarrow>
   respond m rw =
     (if errors_Is_DeadlineExceeded e
      then http_Error rw ''Erro: tempo de espera excedido'' 408
      else http_Error rw (''Erro: '' @ Error e) 500)"
  by (simp add: respond_def)

lemma respond_unknown_origin:
  "Err m = None \<Longrightarrow> Origem m \<noteq> ''viacep'' \<Longrightarrow> Origem m \<noteq> ''brasilapi'' \<Longrightarrow>
   status (respond m fresh_writer) = Some 500
   \<and> written (respond m fresh_writer)
       = [Text (''Erro interno: tipo inesperado de resposta'' @ newline)]"
  by (simp add: writer_defs)

lemma deadline_before_response_head:
  "errors_Is_DeadlineExceeded (Wrapper text DeadlineExceeded)"
  by simp

lemma malformed_examples:
  "\<not> well_formed_path ''/cep/''" "\<not> well_formed_path ''/cep''"
  "\<not> well_formed_path ''/cep/123/extra''" "well_formed_path ''/cep/01001000''"
  by (simp_all add: well_formed_path_def)


subsection \<open>Every request runs to its end\<close>

lemma exec_append: "exec (as @ bs) s = exec bs (exec as s)"
  by (simp add: exec_def)

lemma step_grows:
  assumes "step a s = Some s'"
  shows "stage (handler s) \<le> stage (handler s')"
    and "\<exists>ext. delivered s' = delivered s @ ext"
    and "\<exists>ext. log s' = log s @ ext"
proof -
  have "stage (handler s) \<le> stage (handler s')
        \<and> (\<exists>ext. delivered s' = delivered s @ ext) \<and> (\<exists>ext. log s' = log s @ ext)"
  proof (cases a)
    case (FetchReturns p net)
    with assms show ?thesis
      by (cases p) (auto split: goroutine.splits)
  next
    case (Send p)
    with assms show ?thesis
      by (cases p) (auto split: goroutine.splits if_splits)
  qed (use assms in \<open>auto simp: Let_def split: if_splits list.splits coord.splits\<close>)
  then show "stage (handler s) \<le> stage (handler s')"
    and "\<exists>ext. delivered s' = delivered s @ ext"
    and "\<exists>ext. log s' = log s @ ext"
    by blast+
qed

lemma move_grows:
  "stage (handler s) \<le> stage (handler (move s a))"
  "\<exists>ext. delivered (move s a) = delivered s @ ext"
  "\<exists>ext. log (move s a) = log s @ ext"
  using step_grows [of a s] by (auto simp: move_def split: option.splits)

lemma exited_iff_delivered:
  "invariant s \<Longrightarrow> (task p s = Exited) = (p \<in> set (map fst (delivered s)))"
  by (cases p) (simp_all add: inv_defs task_ok_def)

lemma exited_stays:
  assumes "invariant s" and "task p s = Exited"
  shows "task p (move s a) = Exited"
proof -
  from assms have "p \<in> set (map fst (delivered s))"
    by (simp add: exited_iff_delivered)
  with move_grows(2) [of s a] have "p \<in> set (map fst (delivered (move s a)))"
    by auto
  moreover have "invariant (move s a)" using assms(1) by (rule move_inv)
  ultimately show ?thesis
    by (simp add: exited_iff_delivered)
qed

lemma started_after_spawns:
  assumes "invariant s" and "3 \<le> stage (handler s)" and "log s \<noteq> []"
  shows "task p s \<noteq> NotStarted"
proof -
  have "Go p \<in> set (log s)"
  proof (cases "handler s = Returned")
    case True
    with assms(1,3) show ?thesis
      by (cases p) (auto simp: inv_defs handler_ok_def race_log_def split: list.splits)
  next
    case False
    with assms(1) have "log s = log_at (handler s)"
      by (simp add: inv_defs handler_ok_def)
    with assms(2) False show ?thesis
      by (cases "handler s"; cases p) (simp_all add: race_log_def)
  qed
  with assms(1) show ?thesis
    by (cases p) (auto simp: inv_defs task_ok_def)
qed

lemma receive_after_deliveries:
  assumes "invariant s" and "3 \<le> stage (handler s)"
    and "log s \<noteq> [] \<longrightarrow> task BrasilAPI s = Exited"
  shows "4 \<le> stage (handler (move s Receive))"
proof (cases "handler s = Line125")
  case True
  with assms(1) have l: "log s = race_log"
    by (simp add: inv_defs handler_ok_def)
  then have "log s \<noteq> []" by (simp add: race_log_def)
  with assms exited_iff_delivered [of s BrasilAPI]
  have "BrasilAPI \<in> set (map fst (delivered s))"
    by simp
  moreover from assms(1) l have "map snd (delivered s) = resChan s"
    by (simp add: inv_defs race_log_def)
  ultimately obtain m rest where "resChan s = m # rest"
    by (cases "resChan s") auto
  with True show ?thesis by (simp add: move_def)
next
  case False
  with assms(2) have "4 \<le> stage (handler s)"
    by (cases "handler s") simp_all
  with move_grows(1) [of s Receive] show ?thesis by simp
qed

lemma cancel_after_receive:
  assumes "4 \<le> stage (handler s)"
  shows "5 \<le> stage (handler (move s Cancel))"
  using assms by (cases "handler s") (simp_all add: move_def)

lemma respond_after_cancel:
  assumes "5 \<le> stage (handler s)"
  shows "handler (move s Respond) = Returned"
  using assms by (cases "handler s") (simp_all add: move_def)

lemma enter_leaves_entry: "1 \<le> stage (handler (move s Enter))"
  by (cases "handler s") (simp_all add: move_def Let_def)

lemma go_brasil_advances:
  assumes "1 \<le> stage (handler s)"
  shows "2 \<le> stage (handler (move s GoBrasil))"
  using assms by (cases "handler s") (simp_all add: move_def)

lemma go_viacep_advances:
  assumes "2 \<le> stage (handler s)"
  shows "3 \<le> stage (handler (move s GoViaCep))"
  using assms by (cases "handler s") (simp_all add: move_def)

lemma exec_grows:
  "stage (handler s) \<le> stage (handler (exec as s))"
  "log s \<noteq> [] \<Longrightarrow> log (exec as s) \<noteq> []"
proof -
  show "stage (handler s) \<le> stage (handler (exec as s))"
  proof (induction as arbitrary: s)
    case Nil
    show ?case by (simp add: exec_def)
  next
    case (Cons a as)
    from move_grows(1) [of s a] Cons [of "move s a"] show ?case
      by (simp add: exec_Cons)
  qed
  show "log s \<noteq> [] \<Longrightarrow> log (exec as s) \<noteq> []"
  proof (induction as arbitrary: s)
    case Nil
    then show ?case by (simp add: exec_def)
  next
    case (Cons a as)
    from move_grows(3) [of s a] Cons.prems have "log (move s a) \<noteq> []" by auto
    with Cons.IH [of "move s a"] show ?case by (simp add: exec_Cons)
  qed
qed

lemma exited_stays_exec:
  "invariant s \<Longrightarrow> task p s = Exited \<Longrightarrow> task p (exec as s) = Exited"
proof (induction as arbitrary: s)
  case Nil
  then show ?case by (simp add: exec_def)
next
  case (Cons a as)
  from Cons.prems have "invariant (move s a)" and "task p (move s a) = Exited"
    by (simp_all add: move_inv exited_stays)
  with Cons.IH [of "move s a"] show ?case by (simp add: exec_Cons)
qed

lemma log_started_before:
  assumes "invariant s" and "3 \<le> stage (handler s)" and "log (exec as s) \<noteq> []"
  shows "log s \<noteq> []"
proof
  assume e: "log s = []"
  have "handler s = Returned"
  proof (rule ccontr)
    assume n: "handler s \<noteq> Returned"
    with assms(1) e have "log_at (handler s) = []"
      by (simp add: inv_defs handler_ok_def)
    with assms(2) n show False
      by (cases "handler s") (simp_all add: race_log_def)
  qed
  with assms(1) e have "\<not> accepted (request_path s)"
    by (simp add: inv_defs path_ok_def)
  moreover have "invariant (exec as s)" using assms(1) by (rule exec_inv)
  with assms(3) have "accepted (request_path (exec as s))"
    by (simp add: inv_defs path_ok_def)
  ultimately show False by (simp add: exec_request_path)
qed

lemma progress:
  assumes "invariant s"
  shows "handler (exec (finish netB netV) s) = Returned"
    and "log (exec (finish netB netV) s) \<noteq> [] \<Longrightarrow>
         task BrasilAPI (exec (finish netB netV) s) = Exited
         \<and> task ViaCep (exec (finish netB netV) s) = Exited"
proof -
  define s3 where "s3 = exec [Enter, GoBrasil, GoViaCep] s"
  define s5 where "s5 = exec [FetchReturns BrasilAPI netB, Send BrasilAPI] s3"
  define s7 where "s7 = exec [FetchReturns ViaCep netV, Send ViaCep] s5"
  define f where "f = exec [Receive, Cancel, Respond] s7"
  have f: "exec (finish netB netV) s = f"
    by (simp add: finish_def f_def s7_def s5_def s3_def exec_def)
  have s7': "s7 = exec [FetchReturns BrasilAPI netB, Send BrasilAPI,
                        FetchReturns ViaCep netV, Send ViaCep] s3"
    by (simp add: s7_def s5_def exec_def)
  have f': "f = exec [FetchReturns BrasilAPI netB, Send BrasilAPI,
                      FetchReturns ViaCep netV, Send ViaCep, Receive, Cancel, Respond] s3"
    by (simp add: f_def s7_def s5_def exec_def)
  have i3: "invariant s3" and i5: "invariant s5" and i7: "invariant s7"
    using assms by (simp_all add: s3_def s5_def s7_def exec_inv)
  have g3: "3 \<le> stage (handler s3)"
    using go_viacep_advances [OF go_brasil_advances [OF enter_leaves_entry [of s]]]
    by (simp add: s3_def exec_def)
  have g5: "3 \<le> stage (handler s5)"
    using g3 exec_grows(1) [of s3 "[FetchReturns BrasilAPI netB, Send BrasilAPI]"]
    by (simp add: s5_def [symmetric])
  have g7: "3 \<le> stage (handler s7)"
    using g5 exec_grows(1) [of s5 "[FetchReturns ViaCep netV, Send ViaCep]"]
    by (simp add: s7_def [symmetric])
  have tasks: "task BrasilAPI s7 = Exited \<and> task ViaCep s7 = Exited" if l3: "log s3 \<noteq> []"
  proof -
    have "task BrasilAPI s3 \<noteq> NotStarted"
      using i3 g3 l3 by (rule started_after_spawns)
    then have "task BrasilAPI s5 = Exited"
      using task_runs_to_exit [OF i3, of BrasilAPI netB] by (simp add: s5_def)
    then have b: "task BrasilAPI s7 = Exited"
      using exited_stays_exec [OF i5, of BrasilAPI "[FetchReturns ViaCep netV, Send ViaCep]"]
      by (simp add: s7_def)
    have "log s5 \<noteq> []"
      unfolding s5_def using l3 by (rule exec_grows(2))
    with i5 g5 have "task ViaCep s5 \<noteq> NotStarted"
      by (rule started_after_spawns)
    then have "task ViaCep s7 = Exited"
      using task_runs_to_exit [OF i5, of ViaCep netV] by (simp add: s7_def)
    with b show ?thesis by simp
  qed
  have "log s7 \<noteq> [] \<longrightarrow> task BrasilAPI s7 = Exited"
    using tasks log_started_before [OF i3 g3] by (auto simp: s7')
  with i7 g7 have "4 \<le> stage (handler (move s7 Receive))"
    by (rule receive_after_deliveries)
  then have "handler (move (move (move s7 Receive) Cancel) Respond) = Returned"
    by (intro respond_after_cancel cancel_after_receive)
  then have h: "handler f = Returned"
    by (simp add: f_def exec_def)
  then show "handler (exec (finish netB netV) s) = Returned"
    by (simp add: f)
  show "task BrasilAPI (exec (finish netB netV) s) = Exited
        \<and> task ViaCep (exec (finish netB netV) s) = Exited"
    if "log (exec (finish netB netV) s) \<noteq> []"
  proof -
    from that have "log s3 \<noteq> []"
      using log_started_before [OF i3 g3] by (auto simp: f f')
    then have "task BrasilAPI s7 = Exited" and "task ViaCep s7 = Exited"
      using tasks by simp_all
    then show ?thesis
      using exited_stays_exec [OF i7, of BrasilAPI "[Receive, Cancel, Respond]"]
        exited_stays_exec [OF i7, of ViaCep "[Receive, Cancel, Respond]"]
      by (simp add: f f_def)
  qed
qed

lemma exec_delivered_grows: "\<exists>ext. delivered (exec as s) = delivered s @ ext"
proof (induction as arbitrary: s)
  case Nil
  show ?case by (simp add: exec_def)
next
  case (Cons a as)
  from move_grows(2) [of s a] obtain e1 where "delivered (move s a) = delivered s @ e1" by blast
  moreover from Cons [of "move s a"] obtain e2
    where "delivered (exec as (move s a)) = delivered (move s a) @ e2" by blast
  ultimately show ?case by (simp add: exec_Cons)
qed

lemma first_delivery_stays:
  assumes "delivered s \<noteq> []"
  shows "hd (delivered (exec as s)) = hd (delivered s)"
  using exec_delivered_grows [of as s] assms by auto

lemma returned_accepted:
  assumes "invariant s" and "accepted (request_path s)" and "handler s = Returned"
  shows "delivered s \<noteq> []"
    and "log s = race_log @ [Recv (snd (hd (delivered s))), CancelCall]"
    and "w s = respond (snd (hd (delivered s))) fresh_writer"
proof -
  from assms have "log s \<noteq> []"
    by (auto simp: inv_defs path_ok_def split: if_splits)
  with assms(1,3) obtain m where l: "log s = race_log @ [Recv m, CancelCall]"
    and rw: "w s = respond m fresh_writer"
    by (auto simp: inv_defs handler_ok_def split: list.splits)
  from assms(1) l have d: "map snd (delivered s) = m # resChan s"
    by (simp add: inv_defs received_append race_log_def)
  then show "delivered s \<noteq> []" by auto
  from d have "snd (hd (delivered s)) = m"
    by (cases "delivered s") auto
  with l rw show "log s = race_log @ [Recv (snd (hd (delivered s))), CancelCall]"
    and "w s = respond (snd (hd (delivered s))) fresh_writer"
    by simp_all
qed

lemma two_deliveries:
  assumes "invariant s" and "task BrasilAPI s = Exited" and "task ViaCep s = Exited"
  shows "length (delivered s) = 2"
proof -
  from assms have b: "BrasilAPI \<in> set (map fst (delivered s))"
    and v: "ViaCep \<in> set (map fst (delivered s))"
    using exited_iff_delivered [of s BrasilAPI] exited_iff_delivered [of s ViaCep] by simp_all
  from assms(1) have d: "distinct (map fst (delivered s))"
    by (simp add: inv_defs)
  have "{BrasilAPI, ViaCep} \<subseteq> set (map fst (delivered s))" using b v by simp
  then have "card {BrasilAPI, ViaCep} \<le> card (set (map fst (delivered s)))"
    by (intro card_mono) simp_all
  moreover have "card {BrasilAPI, ViaCep} = 2" by simp
  moreover have "card (set (map fst (delivered s))) = length (map fst (delivered s))"
    using d by (rule distinct_card)
  ultimately have "2 \<le> length (map fst (delivered s))" by linarith
  with provider_list_two [OF d] show ?thesis by simp
qed

lemma race_completes:
  assumes "accepted path"
  shows "invariant (exec (as @ finish netB netV) (init path))"
    and "handler (exec (as @ finish netB netV) (init path)) = Returned"
    and "task p (exec (as @ finish netB netV) (init path)) = Exited"
    and "length (delivered (exec (as @ finish netB netV) (init path))) = 2"
proof -
  define f where "f = exec (as @ finish netB netV) (init path)"
  have f: "f = exec (finish netB netV) (exec as (init path))"
    by (simp add: f_def exec_append)
  have i: "invariant f"
    by (simp add: f_def invariant_exec_init)
  have h: "handler f = Returned"
    unfolding f using invariant_exec_init by (rule progress(1))
  have "request_path f = path"
    by (simp add: f_def exec_request_path init_def)
  with i h assms have "log f \<noteq> []"
    using returned_accepted(2) [of f] by simp
  then have t: "task BrasilAPI f = Exited \<and> task ViaCep f = Exited"
    unfolding f using progress(2) [OF invariant_exec_init] by blast
  then have "task p f = Exited" by (cases p) simp_all
  moreover have "length (delivered f) = 2"
    using i t by (simp add: two_deliveries)
  ultimately show "invariant (exec (as @ finish netB netV) (init path))"
    and "handler (exec (as @ finish netB netV) (init path)) = Returned"
    and "task p (exec (as @ finish netB netV) (init path)) = Exited"
    and "length (delivered (exec (as @ finish netB netV) (init path))) = 2"
    using i h by (simp_all add: f_def)
qed


lemma hd_delivered_built_by:
  assumes "invariant s" and "delivered s \<noteq> []"
  shows "built_by (fst (hd (delivered s))) (snd (hd (delivered s)))"
  using assms by (cases "delivered s") (simp_all add: inv_defs)


lemma quiescent:
  assumes "handler s = Returned" and "task BrasilAPI s = Exited" and "task ViaCep s = Exited"
  shows "step a s = None"
proof (cases a)
  case (FetchReturns p net)
  with assms show ?thesis by (cases p) simp_all
next
  case (Send p)
  with assms show ?thesis by (cases p) simp_all
qed (use assms in simp_all)

lemma loser_stays_in_buffer:
  assumes "invariant s" and "accepted (request_path s)" and "handler s = Returned"
    and "length (delivered s) = 2"
  shows "resChan s = [snd (delivered s ! 1)]"
proof -
  from returned_accepted(2) [OF assms(1-3)] assms(1)
  have "map snd (delivered s) = snd (hd (delivered s)) # resChan s"
    by (simp add: inv_defs received_append race_log_def)
  moreover from assms(4) obtain x y where "delivered s = [x, y]"
    by (cases "delivered s"; cases "tl (delivered s)") auto
  ultimately show ?thesis by simp
qed

lemma respond_success_shape:
  assumes "built_by p m" and "Err m = None"
  shows "status (respond m fresh_writer) = Some 200
         \<and> header (respond m fresh_writer) ''Content-Type'' = Some ''application/json''
         \<and> (case p of
               BrasilAPI \<Rightarrow>
                 (case Data m of
                    OfBrasil a \<Rightarrow>
                      written (respond m fresh_writer)
                        = [JsonLine (JObject
                             [(''origem'', JString ''brasilapi''),
                              (''data'', JObject
                                 [(''cep'', JString (Cep a)), (''state'', JString (State a)),
                                  (''city'', JString (City a)),
                                  (''neighborhood'', JString (Neighborhood a)),
                                  (''street'', JString (Street a))])])]
                  | _ \<Rightarrow> False)
             | ViaCep \<Rightarrow>
                 (case Data m of
                    OfViaCep a \<Rightarrow>
                      written (respond m fresh_writer)
                        = [JsonLine (JObject
                             [(''origem'', JString ''viacep''),
                              (''data'', JObject
                                 [(''cep'', JString (vCep a)), (''uf'', JString (Uf a)),
                                  (''localidade'', JString (Localidade a)),
                                  (''bairro'', JString (Bairro a)),
                                  (''logradouro'', JString (Logradouro a))])])]
                  | _ \<Rightarrow> False))"
proof (cases p)
  case BrasilAPI
  with assms obtain a where "Data m = OfBrasil a" and "Origem m = ''brasilapi''"
    by (cases "Data m") (auto simp: built_by_def)
  with assms(2) BrasilAPI show ?thesis
    by (simp add: writer_defs envelope_def MarshalBrasil_def)
next
  case ViaCep
  with assms obtain a where "Data m = OfViaCep a" and "Origem m = ''viacep''"
    by (cases "Data m") (auto simp: built_by_def)
  with assms(2) ViaCep show ?thesis
    by (simp add: writer_defs envelope_def MarshalViaCep_def)
qed

lemma viacep_first_delivers:
  assumes "accepted path"
  shows "delivered (exec (viacep_first net) (init path))
         = [(ViaCep, call_client ViaCep net (strings_Split path (CHR ''/'') ! 2))]"
  using assms
  by (simp add: viacep_first_def exec_def move_def init_def accepted_def Let_def resChan_cap_def)

section \<open>The properties of the specification\<close>

text \<open>
  C1. For every request that passes the path check, whatever the two providers do and in
  whatever order the processes have run so far, letting every process take its remaining
  steps ends with the handler returned, both messages delivered, exactly one of them
  taken from the channel, namely the first one delivered, and the response being the
  response mapper's answer to that message, whoever sent it and whether it is a success
  or a failure. The first delivered message stays the first, and a handler that has
  already returned has answered with the answer to that message: what the other
  goroutine delivers, before or after, has no part in the response.
\<close>

theorem C1_first_message_decides:
  assumes "accepted path"
  shows "let s = exec as (init path);
             f = exec (as @ finish netB netV) (init path);
             first = snd (hd (delivered f)) in
           handler f = Returned
           \<and> length (delivered f) = 2
           \<and> received (log f) = [first]
           \<and> w f = respond first fresh_writer
           \<and> (delivered s \<noteq> [] \<longrightarrow> hd (delivered f) = hd (delivered s))
           \<and> (handler s = Returned \<longrightarrow> w s = respond first fresh_writer)"
proof -
  define s where "s = exec as (init path)"
  define f where "f = exec (as @ finish netB netV) (init path)"
  have fs: "f = exec (finish netB netV) s"
    by (simp add: f_def s_def exec_append)
  have i: "invariant f" and h: "handler f = Returned" and n: "length (delivered f) = 2"
    using race_completes [OF assms, where as = as and netB = netB and netV = netV]
    by (simp_all add: f_def)
  have p: "request_path f = path" "request_path s = path"
    by (simp_all add: f_def s_def exec_request_path init_def)
  have l: "log f = race_log @ [Recv (snd (hd (delivered f))), CancelCall]"
    and rw: "w f = respond (snd (hd (delivered f))) fresh_writer"
    using returned_accepted [OF i _ h] assms p by simp_all
  have k: "hd (delivered f) = hd (delivered s)" if "delivered s \<noteq> []"
    unfolding fs using that by (rule first_delivery_stays)
  have "w s = respond (snd (hd (delivered f))) fresh_writer" if r: "handler s = Returned"
  proof -
    have inv_s: "invariant s" by (simp add: s_def invariant_exec_init)
    from returned_accepted [OF inv_s _ r] assms p
    have "delivered s \<noteq> []" and "w s = respond (snd (hd (delivered s))) fresh_writer"
      by simp_all
    with k show ?thesis by simp
  qed
  with h n l rw k show ?thesis
    unfolding s_def [symmetric] f_def [symmetric] Let_def
    by (simp add: received_append race_log_def)
qed

text \<open>
  Two instances. BrasilAPI answers 503 first and ViaCep answers with an address
  afterwards: the response is the one for the failure, status 500. ViaCep answers with an
  address first and BrasilAPI's call fails with the cancelled context afterwards: the
  response is the one for the address, status 200.
\<close>

theorem C1_first_message_decides_witness:
  "accepted example_path
   \<and> delivered (exec schedule_failure_first (init example_path))
       = [(BrasilAPI, msg_unavailable), (ViaCep, msg_found_viacep)]
   \<and> handler (exec schedule_failure_first (init example_path)) = Returned
   \<and> handler (exec (schedule_failure_first @ finish net_canceled net_canceled)
                 (init example_path)) = Returned
   \<and> w (exec (schedule_failure_first @ finish net_canceled net_canceled) (init example_path))
       = respond msg_unavailable fresh_writer
   \<and> w (exec schedule_failure_first (init example_path)) = respond msg_unavailable fresh_writer
   \<and> status (respond msg_unavailable fresh_writer) = Some 500
   \<and> delivered (exec schedule_success_first (init example_path))
       = [(ViaCep, msg_found_viacep), (BrasilAPI, msg_canceled)]
   \<and> handler (exec schedule_success_first (init example_path)) = Returned
   \<and> w (exec schedule_success_first (init example_path)) = respond msg_found_viacep fresh_writer
   \<and> status (respond msg_found_viacep fresh_writer) = Some 200"
proof -
  let ?s1 = "exec schedule_failure_first (init example_path)"
  let ?f1 = "exec (schedule_failure_first @ finish net_canceled net_canceled) (init example_path)"
  let ?s2 = "exec schedule_success_first (init example_path)"
  let ?f2 = "exec (schedule_success_first @ finish net_canceled net_canceled) (init example_path)"
  have a: "accepted example_path"
    by code_simp
  have d1: "delivered ?s1 = [(BrasilAPI, msg_unavailable), (ViaCep, msg_found_viacep)]"
    by code_simp
  have h1: "handler ?s1 = Returned"
    by code_simp
  have r1: "status (respond msg_unavailable fresh_writer) = Some 500"
    by code_simp
  have d2: "delivered ?s2 = [(ViaCep, msg_found_viacep), (BrasilAPI, msg_canceled)]"
    by code_simp
  have h2: "handler ?s2 = Returned"
    by code_simp
  have r2: "status (respond msg_found_viacep fresh_writer) = Some 200"
    by code_simp
  have t1: "handler ?f1 = Returned \<and> w ?f1 = respond msg_unavailable fresh_writer
            \<and> w ?s1 = respond msg_unavailable fresh_writer"
    using C1_first_message_decides [OF a, where as = schedule_failure_first
        and netB = net_canceled and netV = net_canceled] d1 h1
    by (simp add: Let_def)
  have t2: "w ?s2 = respond msg_found_viacep fresh_writer"
    using C1_first_message_decides [OF a, where as = schedule_success_first
        and netB = net_canceled and netV = net_canceled] d2 h2
    by (simp add: Let_def)
  from a d1 h1 r1 d2 h2 r2 t1 t2 show ?thesis
    by blast
qed

text \<open>
  C2. A response with a status other than 200 is an error that carries the status text in
  \<^verbatim>\<open>fetchFromBrasilAPI\<close>; \<^verbatim>\<open>fetchFromViaCep\<close> has no status check: for a response with
  status 500 and a JSON object as body it returns the zero address and no error.
\<close>

theorem C2_viacep_ignores_status:
  "fetchFromViaCep net_error_json ''01001000'' = (zeroViaCep, None)
   \<and> fetchFromBrasilAPI net_error_json ''01001000''
       = (zeroBrasil, Some (ErrorString (requisicao_falhou @ ''500 Internal Server Error'')))"
  by code_simp

text \<open>
  C3. When the deadline expires while the body is read, after the response head has
  arrived with status 200, the client copies the text of \<^verbatim>\<open>context.DeadlineExceeded\<close>
  into a new error with \<^verbatim>\<open>%v\<close>; \<^verbatim>\<open>errors.Is\<close> no longer finds the deadline in it, and
  the handler answers 500 with the text of the error, not 408.
\<close>

theorem C3_deadline_in_body_read:
  "Err (call_client BrasilAPI net_slow_body ''01001000'')
     = Some (ErrorString ''error reading response: context deadline exceeded'')
   \<and> handler (exec schedule_slow_body (init example_path)) = Returned
   \<and> status (w (exec schedule_slow_body (init example_path))) = Some 500
   \<and> written (w (exec schedule_slow_body (init example_path)))
       = [Text (''Erro: error reading response: context deadline exceeded'' @ newline)]"
  by code_simp




text \<open>
  C5. For every request that passes the path check, in every state of every run, for each
  goroutine \<open>p\<close>: \<open>p\<close> has delivered one message if it has exited and none otherwise;
  its send can happen whenever it stands at its send statement, wherever the handler
  stands, so it is never blocked by a full channel; its client call can return whenever
  it is inside it; once started, letting its call return and its send happen brings it to
  its exit; the buffer never holds more than its capacity of two; what was delivered is
  what the handler received, at most one message, followed by what is still in the
  buffer; and the handler receives only at line 125. And letting every process take its
  remaining steps ends with the handler returned, \<open>p\<close> exited after exactly one
  delivery, two deliveries in all, the second delivered message alone in the buffer,
  unread, and no step left to take: nothing is blocked and no goroutine is left behind.
\<close>

theorem C5_one_message_each_never_blocked:
  assumes "accepted path"
  shows "let s = exec as (init path); f = exec (as @ finish netB netV) (init path) in
     count_list (map fst (delivered s)) p = (if task p s = Exited then 1 else 0)
     \<and> (step (Send p) s \<noteq> None) = at_send (task p s)
     \<and> (step (FetchReturns p net) s \<noteq> None) = (task p s = Fetching)
     \<and> (task p (exec [FetchReturns p net, Send p] s) = Exited) = (task p s \<noteq> NotStarted)
     \<and> length (resChan s) \<le> resChan_cap
     \<and> map snd (delivered s) = received (log s) @ resChan s
     \<and> length (received (log s)) \<le> 1
     \<and> (step Receive s \<noteq> None) = (handler s = Line125 \<and> resChan s \<noteq> [])
     \<and> handler f = Returned
     \<and> task p f = Exited
     \<and> count_list (map fst (delivered f)) p = 1
     \<and> length (delivered f) = 2
     \<and> resChan f = [snd (delivered f ! 1)]
     \<and> step a f = None"
proof -
  define s where "s = exec as (init path)"
  define f where "f = exec (as @ finish netB netV) (init path)"
  have i: "invariant s"
    by (simp add: s_def invariant_exec_init)
  then have d: "distinct (map fst (delivered s))"
    and c: "map snd (delivered s) = received (log s) @ resChan s"
    by (simp_all add: inv_defs)
  have 1: "count_list (map fst (delivered s)) p = (if task p s = Exited then 1 else 0)"
    using count_list_distinct [OF d, of p] exited_iff_delivered [OF i, of p] by simp
  have 3: "(step (FetchReturns p net) s \<noteq> None) = (task p s = Fetching)"
    by (cases "task p s") simp_all
  have "length (map snd (delivered s)) \<le> 2"
    using provider_list_two [OF d] by simp
  then have 5: "length (resChan s) \<le> resChan_cap"
    unfolding c by (simp add: resChan_cap_def)
  have 8: "(step Receive s \<noteq> None) = (handler s = Line125 \<and> resChan s \<noteq> [])"
    by (cases "resChan s") simp_all
  have fi: "invariant f" and fh: "handler f = Returned" and fn: "length (delivered f) = 2"
    and ft: "task q f = Exited" for q
    using race_completes [OF assms, where as = as and netB = netB and netV = netV]
    by (simp_all add: f_def)
  have fp: "accepted (request_path f)"
    using assms by (simp add: f_def exec_request_path init_def)
  from fi have "distinct (map fst (delivered f))"
    by (simp add: inv_defs)
  then have 11: "count_list (map fst (delivered f)) p = 1"
    using count_list_distinct [of "map fst (delivered f)" p] exited_iff_delivered [OF fi, of p] ft
    by simp
  have 13: "resChan f = [snd (delivered f ! 1)]"
    using fi fp fh fn by (rule loser_stays_in_buffer)
  have 14: "step a f = None"
    using fh ft [of BrasilAPI] ft [of ViaCep] by (rule quiescent)
  show ?thesis
    using 1 send_enabled [OF i, of p] 3 task_runs_to_exit [OF i, of p net] 5 c
      received_at_most_one [OF i] 8 fh ft [of p] 11 fn 13 14
    unfolding s_def [symmetric] f_def [symmetric] Let_def by blast
qed

text \<open>
  An instance: ViaCep wins and the handler has returned while BrasilAPI, whose call
  failed with the cancelled context, stands at its send statement. Its send can happen;
  after it BrasilAPI has exited and its message is the one left in the buffer.
\<close>

theorem C5_one_message_each_never_blocked_witness:
  "accepted example_path
   \<and> handler (exec schedule_loser_late (init example_path)) = Returned
   \<and> task BrasilAPI (exec schedule_loser_late (init example_path)) = Sending msg_canceled
   \<and> step (Send BrasilAPI) (exec schedule_loser_late (init example_path)) \<noteq> None
   \<and> handler (exec (schedule_loser_late @ finish net_canceled net_canceled)
                 (init example_path)) = Returned
   \<and> task BrasilAPI (exec (schedule_loser_late @ finish net_canceled net_canceled)
                         (init example_path)) = Exited
   \<and> delivered (exec (schedule_loser_late @ finish net_canceled net_canceled)
                   (init example_path))
       = [(ViaCep, msg_found_viacep), (BrasilAPI, msg_canceled)]
   \<and> count_list (map fst (delivered (exec (schedule_loser_late @ finish net_canceled net_canceled)
                                         (init example_path)))) BrasilAPI = 1
   \<and> resChan (exec (schedule_loser_late @ finish net_canceled net_canceled) (init example_path))
       = [msg_canceled]"
proof -
  let ?s = "exec schedule_loser_late (init example_path)"
  let ?f = "exec (schedule_loser_late @ finish net_canceled net_canceled) (init example_path)"
  have a: "accepted example_path"
    by code_simp
  have h: "handler ?s = Returned"
    by code_simp
  have g: "task BrasilAPI ?s = Sending msg_canceled"
    by code_simp
  have d: "delivered ?f = [(ViaCep, msg_found_viacep), (BrasilAPI, msg_canceled)]"
    by code_simp
  note t = C5_one_message_each_never_blocked [OF a, where as = schedule_loser_late
      and netB = net_canceled and netV = net_canceled and p = BrasilAPI and net = net_canceled
      and a = Receive, unfolded Let_def]
  from t have e: "(step (Send BrasilAPI) ?s \<noteq> None) = at_send (task BrasilAPI ?s)"
    and fh: "handler ?f = Returned" and ft: "task BrasilAPI ?f = Exited"
    and fc: "count_list (map fst (delivered ?f)) BrasilAPI = 1"
    and fr: "resChan ?f = [snd (delivered ?f ! 1)]"
    by blast+
  from e g have e': "step (Send BrasilAPI) ?s \<noteq> None"
    by simp
  from fr d have fr': "resChan ?f = [msg_canceled]"
    by simp
  from a h g e' fh ft d fc fr' show ?thesis
    by blast
qed

text \<open>
  C6. For a request that passes the path check, in every state of every run: while the
  handler has not returned, its effects so far are those of its position (none of them a
  call of \<^verbatim>\<open>cancel\<close> up to line 126, exactly one at line 127, directly after the
  receive) and nothing has been written to the response; once it has returned, its
  effects are the creation of the context and the channel, the two \<^verbatim>\<open>go\<close> statements,
  the receive of the first delivered message and then one call of \<^verbatim>\<open>cancel\<close>, and the
  response is the mapper's answer to that message, whatever the message is.
\<close>

theorem C6_cancel_once_after_receive:
  assumes "accepted path"
  shows "let s = exec as (init path) in
           if handler s = Returned
           then log s = race_log @ [Recv (snd (hd (delivered s))), CancelCall]
                \<and> count_list (log s) CancelCall = 1
                \<and> w s = respond (snd (hd (delivered s))) fresh_writer
           else log s = log_at (handler s)
                \<and> count_list (log s) CancelCall = (case handler s of Line127 m \<Rightarrow> 1 | _ \<Rightarrow> 0)
                \<and> w s = fresh_writer"
proof -
  define s where "s = exec as (init path)"
  have i: "invariant s"
    by (simp add: s_def invariant_exec_init)
  have r: "request_path s = path"
    by (simp add: s_def exec_request_path init_def)
  show ?thesis
  proof (cases "handler s = Returned")
    case True
    from i r True assms have "log s \<noteq> []"
      by (auto simp: inv_defs path_ok_def split: if_splits)
    with i True obtain m where l: "log s = race_log @ [Recv m, CancelCall]"
      and rw: "w s = respond m fresh_writer"
      by (auto simp: inv_defs handler_ok_def split: list.splits)
    from i l have "map snd (delivered s) = m # resChan s"
      by (simp add: inv_defs received_append race_log_def)
    then have "snd (hd (delivered s)) = m"
      by (cases "delivered s") auto
    with l rw True show ?thesis
      by (simp add: s_def [symmetric] race_log_def)
  next
    case False
    with i have "log s = log_at (handler s)" and "w s = fresh_writer"
      by (simp_all add: inv_defs handler_ok_def)
    with False show ?thesis
      by (simp add: s_def [symmetric] count_log_at)
  qed
qed

theorem C6_cancel_once_after_receive_witness:
  "accepted example_path
   \<and> handler (exec schedule_failure_first (init example_path)) = Returned
   \<and> snd (hd (delivered (exec schedule_failure_first (init example_path)))) = msg_unavailable
   \<and> log (exec schedule_failure_first (init example_path))
       = race_log @ [Recv msg_unavailable, CancelCall]
   \<and> count_list (log (exec schedule_failure_first (init example_path))) CancelCall = 1
   \<and> w (exec schedule_failure_first (init example_path)) = respond msg_unavailable fresh_writer"
proof -
  have a: "accepted example_path"
    by code_simp
  have h: "handler (exec schedule_failure_first (init example_path)) = Returned"
    by code_simp
  have d: "snd (hd (delivered (exec schedule_failure_first (init example_path)))) = msg_unavailable"
    by code_simp
  from C6_cancel_once_after_receive [OF a, of schedule_failure_first] a h d show ?thesis
    by (simp add: Let_def race_log_def)
qed

text \<open>
  C7. For a path with a leading slash that does not have exactly two segments after it
  with a non-empty second one, in every state of every run no goroutine has been started,
  the handler has created no context and no channel, nothing has been delivered, and the
  handler either has not run yet or has returned with status 400 and the usage message;
  after its first step it has returned.
\<close>

theorem C7_malformed_path_is_400:
  assumes "path = CHR ''/'' # rest" and "\<not> well_formed_path path"
  shows "brasilapi (exec as (init path)) = NotStarted
         \<and> viacep (exec as (init path)) = NotStarted
         \<and> log (exec as (init path)) = []
         \<and> delivered (exec as (init path)) = []
         \<and> (if handler (exec as (init path)) = Line100
            then w (exec as (init path)) = fresh_writer
            else handler (exec as (init path)) = Returned
                 \<and> w (exec as (init path)) = http_Error fresh_writer usage 400)
         \<and> handler (exec (Enter # as) (init path)) = Returned
         \<and> status (http_Error fresh_writer usage 400) = Some 400
         \<and> written (http_Error fresh_writer usage 400) = [Text (usage @ newline)]"
proof -
  have na: "\<not> accepted path"
    using assms accepted_iff_well_formed by simp
  have frame: "request_path (exec bs (init path)) = path" for bs
    by (simp add: exec_request_path init_def)
  have main: "brasilapi s = NotStarted \<and> viacep s = NotStarted \<and> log s = [] \<and> delivered s = []
      \<and> (if handler s = Line100 then w s = fresh_writer
          else handler s = Returned \<and> w s = http_Error fresh_writer usage 400)"
    if "invariant s" and "request_path s = path" for s
  proof -
    from that na have l: "log s = []" and h: "handler s = Line100 \<or> handler s = Returned"
      by (auto simp: inv_defs path_ok_def split: if_splits)
    from that(1) l have t: "brasilapi s = NotStarted" "viacep s = NotStarted"
      by (auto simp: inv_defs task_ok_def)
    with that(1) have "BrasilAPI \<notin> set (map fst (delivered s))"
      and "ViaCep \<notin> set (map fst (delivered s))"
      by (auto simp: inv_defs task_ok_def)
    then have d: "delivered s = []"
      using no_provider_no_entry [of "map fst (delivered s)"] by simp
    from that(1) l h have "if handler s = Line100 then w s = fresh_writer
          else handler s = Returned \<and> w s = http_Error fresh_writer usage 400"
      by (auto simp: inv_defs handler_ok_def)
    with l t d show ?thesis by simp
  qed
  have e: "handler (exec (Enter # as) (init path)) \<noteq> Line100"
    by (rule entered)
  show ?thesis
    using main [OF invariant_exec_init frame, of as] main [OF invariant_exec_init frame, of "Enter # as"] e
    by (simp add: writer_defs)
qed

theorem C7_malformed_path_is_400_witness:
  "''/cep/123/extra'' = CHR ''/'' # ''cep/123/extra''
   \<and> \<not> well_formed_path ''/cep/123/extra''
   \<and> brasilapi (exec [Enter, GoBrasil, Receive] (init ''/cep/123/extra'')) = NotStarted
   \<and> viacep (exec [Enter, GoBrasil, Receive] (init ''/cep/123/extra'')) = NotStarted
   \<and> log (exec [Enter, GoBrasil, Receive] (init ''/cep/123/extra'')) = []
   \<and> delivered (exec [Enter, GoBrasil, Receive] (init ''/cep/123/extra'')) = []
   \<and> (if handler (exec [Enter, GoBrasil, Receive] (init ''/cep/123/extra'')) = Line100
      then w (exec [Enter, GoBrasil, Receive] (init ''/cep/123/extra'')) = fresh_writer
      else handler (exec [Enter, GoBrasil, Receive] (init ''/cep/123/extra'')) = Returned
           \<and> w (exec [Enter, GoBrasil, Receive] (init ''/cep/123/extra''))
               = http_Error fresh_writer usage 400)
   \<and> handler (exec (Enter # [Enter, GoBrasil, Receive]) (init ''/cep/123/extra'')) = Returned
   \<and> status (http_Error fresh_writer usage 400) = Some 400
   \<and> written (http_Error fresh_writer usage 400) = [Text (usage @ newline)]"
proof -
  have p: "''/cep/123/extra'' = CHR ''/'' # ''cep/123/extra''"
    by simp
  have n: "\<not> well_formed_path ''/cep/123/extra''"
    by code_simp
  from C7_malformed_path_is_400 [OF p n, of "[Enter, GoBrasil, Receive]"] p n show ?thesis
    by blast
qed

text \<open>
  C8. For every request that passes the path check, whatever the providers do and in
  whatever order the processes have run so far, letting every process take its remaining
  steps ends with the handler returned; and when the first delivered message carries no
  error, the response has status 200, the content type \<^verbatim>\<open>application/json\<close> and as
  body one JSON object with the member \<^verbatim>\<open>origem\<close>, the sender's name, and the member
  \<^verbatim>\<open>data\<close>, an object with the five members of the sender's address shape:
  \<^verbatim>\<open>cep\<close>, \<^verbatim>\<open>state\<close>, \<^verbatim>\<open>city\<close>, \<^verbatim>\<open>neighborhood\<close>, \<^verbatim>\<open>street\<close> for BrasilAPI and
  \<^verbatim>\<open>cep\<close>, \<^verbatim>\<open>uf\<close>, \<^verbatim>\<open>localidade\<close>, \<^verbatim>\<open>bairro\<close>, \<^verbatim>\<open>logradouro\<close> for ViaCep.
\<close>

theorem C8_success_is_200_envelope:
  assumes "accepted path"
  shows "let f = exec (as @ finish netB netV) (init path);
             p = fst (hd (delivered f)); m = snd (hd (delivered f)) in
           handler f = Returned
           \<and> (Err m = None \<longrightarrow>
                status (w f) = Some 200
                \<and> header (w f) ''Content-Type'' = Some ''application/json''
                \<and> (case p of
                      BrasilAPI \<Rightarrow>
                        (case Data m of
                           OfBrasil a \<Rightarrow>
                             written (w f)
                               = [JsonLine (JObject
                                    [(''origem'', JString ''brasilapi''),
                                     (''data'', JObject
                                        [(''cep'', JString (Cep a)), (''state'', JString (State a)),
                                         (''city'', JString (City a)),
                                         (''neighborhood'', JString (Neighborhood a)),
                                         (''street'', JString (Street a))])])]
                         | _ \<Rightarrow> False)
                    | ViaCep \<Rightarrow>
                        (case Data m of
                           OfViaCep a \<Rightarrow>
                             written (w f)
                               = [JsonLine (JObject
                                    [(''origem'', JString ''viacep''),
                                     (''data'', JObject
                                        [(''cep'', JString (vCep a)), (''uf'', JString (Uf a)),
                                         (''localidade'', JString (Localidade a)),
                                         (''bairro'', JString (Bairro a)),
                                         (''logradouro'', JString (Logradouro a))])])]
                         | _ \<Rightarrow> False)))"
proof -
  define f where "f = exec (as @ finish netB netV) (init path)"
  have i: "invariant f" and h: "handler f = Returned"
    using race_completes [OF assms, where as = as and netB = netB and netV = netV]
    by (simp_all add: f_def)
  have "accepted (request_path f)"
    using assms by (simp add: f_def exec_request_path init_def)
  from returned_accepted [OF i this h]
  have d: "delivered f \<noteq> []" and rw: "w f = respond (snd (hd (delivered f))) fresh_writer"
    by simp_all
  have b: "built_by (fst (hd (delivered f))) (snd (hd (delivered f)))"
    using i d by (rule hd_delivered_built_by)
  show ?thesis
    unfolding f_def [symmetric] Let_def rw
    using h [unfolded rw] respond_success_shape [OF b] by blast
qed

text \<open>
  Two instances: ViaCep answers with an address first, and BrasilAPI answers with an
  address first; in both the other call fails with the cancelled context.
\<close>

theorem C8_success_is_200_envelope_witness:
  "accepted example_path
   \<and> hd (delivered (exec (schedule_success_first @ finish net_canceled net_canceled)
                       (init example_path))) = (ViaCep, msg_found_viacep)
   \<and> Err msg_found_viacep = None
   \<and> handler (exec (schedule_success_first @ finish net_canceled net_canceled)
                 (init example_path)) = Returned
   \<and> status (w (exec (schedule_success_first @ finish net_canceled net_canceled)
                    (init example_path))) = Some 200
   \<and> header (w (exec (schedule_success_first @ finish net_canceled net_canceled)
                    (init example_path))) ''Content-Type'' = Some ''application/json''
   \<and> written (w (exec (schedule_success_first @ finish net_canceled net_canceled)
                     (init example_path)))
       = [JsonLine (JObject
            [(''origem'', JString ''viacep''),
             (''data'', JObject
                [(''cep'', JString ''01001-000''), (''uf'', JString ''SP''),
                 (''localidade'', JString ''Sao Paulo''), (''bairro'', JString ''Se''),
                 (''logradouro'', JString ''Praca da Se'')])])]
   \<and> hd (delivered (exec (schedule_brasil_first @ finish net_canceled net_canceled)
                       (init example_path))) = (BrasilAPI, msg_found_brasil)
   \<and> Err msg_found_brasil = None
   \<and> status (w (exec (schedule_brasil_first @ finish net_canceled net_canceled)
                    (init example_path))) = Some 200
   \<and> written (w (exec (schedule_brasil_first @ finish net_canceled net_canceled)
                     (init example_path)))
       = [JsonLine (JObject
            [(''origem'', JString ''brasilapi''),
             (''data'', JObject
                [(''cep'', JString ''01001000''), (''state'', JString ''SP''),
                 (''city'', JString ''Sao Paulo''), (''neighborhood'', JString ''Se''),
                 (''street'', JString ''Praca da Se'')])])]"
proof -
  let ?f1 = "exec (schedule_success_first @ finish net_canceled net_canceled) (init example_path)"
  let ?f2 = "exec (schedule_brasil_first @ finish net_canceled net_canceled) (init example_path)"
  have a: "accepted example_path"
    by code_simp
  have d1: "hd (delivered ?f1) = (ViaCep, msg_found_viacep)"
    by code_simp
  have d2: "hd (delivered ?f2) = (BrasilAPI, msg_found_brasil)"
    by code_simp
  have e1: "Err msg_found_viacep = None"
    by (simp add: msg_found_viacep_def)
  have e2: "Err msg_found_brasil = None"
    by (simp add: msg_found_brasil_def)
  note t1 = C8_success_is_200_envelope [OF a, where as = schedule_success_first
      and netB = net_canceled and netV = net_canceled, unfolded Let_def d1 fst_conv snd_conv]
  note t2 = C8_success_is_200_envelope [OF a, where as = schedule_brasil_first
      and netB = net_canceled and netV = net_canceled, unfolded Let_def d2 fst_conv snd_conv]
  from t1 e1 have r1: "handler ?f1 = Returned \<and> status (w ?f1) = Some 200
      \<and> header (w ?f1) ''Content-Type'' = Some ''application/json''
      \<and> written (w ?f1)
          = [JsonLine (JObject
            [(''origem'', JString ''viacep''),
             (''data'', JObject
                [(''cep'', JString ''01001-000''), (''uf'', JString ''SP''),
                 (''localidade'', JString ''Sao Paulo''), (''bairro'', JString ''Se''),
                 (''logradouro'', JString ''Praca da Se'')])])]"
    by (simp add: msg_found_viacep_def)
  from t2 e2 have r2: "status (w ?f2) = Some 200
      \<and> written (w ?f2)
          = [JsonLine (JObject
            [(''origem'', JString ''brasilapi''),
             (''data'', JObject
                [(''cep'', JString ''01001000''), (''state'', JString ''SP''),
                 (''city'', JString ''Sao Paulo''), (''neighborhood'', JString ''Se''),
                 (''street'', JString ''Praca da Se'')])])]"
    by (simp add: msg_found_brasil_def)
  from a d1 d2 e1 e2 r1 r2 show ?thesis
    by blast
qed

text \<open>
  C9. When the decoder fails on the body of a response, \<^verbatim>\<open>fetchFromViaCep\<close> (at any
  status) and \<^verbatim>\<open>fetchFromBrasilAPI\<close> (at status 200, the only status at which it reads
  the body) return the zero address and an error whose text is
  \<^verbatim>\<open>error reading response: \<close> followed by the decoder's error text; and at any status
  \<^verbatim>\<open>fetchFromBrasilAPI\<close> returns the zero address and an error for such a body, never a
  success.
\<close>

theorem C9_decode_failure_is_error:
  "(netV (''https://viacep.com.br/ws/'' @ c @ ''/json/'') = Response codeV stV (ReadOk bodyV)
      \<and> snd (UnmarshalViaCep bodyV zeroViaCep) = Some errV
    \<longrightarrow> fetchFromViaCep netV c
          = (zeroViaCep, Some (ErrorString (''error reading response: '' @ Error errV))))
   \<and> (netB (''https://brasilapi.com.br/api/cep/v1/'' @ c) = Response 200 stB (ReadOk bodyB)
      \<and> snd (UnmarshalBrasil bodyB zeroBrasil) = Some errB
    \<longrightarrow> fetchFromBrasilAPI netB c
          = (zeroBrasil, Some (ErrorString (''error reading response: '' @ Error errB))))
   \<and> (netA (''https://brasilapi.com.br/api/cep/v1/'' @ c) = Response codeA stA (ReadOk bodyA)
      \<and> snd (UnmarshalBrasil bodyA zeroBrasil) = Some errA
    \<longrightarrow> fst (fetchFromBrasilAPI netA c) = zeroBrasil \<and> snd (fetchFromBrasilAPI netA c) \<noteq> None)"
  by (auto simp: fetchFromViaCep_def fetchFromBrasilAPI_def Errorf_v_def split: prod.splits)

theorem C9_decode_failure_is_error_witness:
  "net_not_json (''https://viacep.com.br/ws/'' @ ''01001000'' @ ''/json/'')
     = Response 200 ''200 OK'' (ReadOk (Malformed ''unexpected end of JSON input''))
   \<and> snd (UnmarshalViaCep (Malformed ''unexpected end of JSON input'') zeroViaCep)
       = Some (ErrorString ''unexpected end of JSON input'')
   \<and> fetchFromViaCep net_not_json ''01001000''
       = (zeroViaCep,
          Some (ErrorString (''error reading response: ''
             @ Error (ErrorString ''unexpected end of JSON input''))))
   \<and> net_array_body (''https://brasilapi.com.br/api/cep/v1/'' @ ''01001000'')
       = Response 200 ''200 OK'' (ReadOk (Document (JArray [])))
   \<and> snd (UnmarshalBrasil (Document (JArray [])) zeroBrasil)
       = Some (ErrorString ''json: cannot unmarshal array into Go value of type main.AddressBrasil'')
   \<and> fetchFromBrasilAPI net_array_body ''01001000''
       = (zeroBrasil,
          Some (ErrorString (''error reading response: ''
             @ Error (ErrorString ''json: cannot unmarshal array into Go value of type main.AddressBrasil''))))
   \<and> net_unavailable (''https://brasilapi.com.br/api/cep/v1/'' @ ''01001000'')
       = Response 503 ''503 Service Unavailable'' (ReadOk (Malformed html_syntax_error))
   \<and> snd (UnmarshalBrasil (Malformed html_syntax_error) zeroBrasil)
       = Some (ErrorString html_syntax_error)
   \<and> fst (fetchFromBrasilAPI net_unavailable ''01001000'') = zeroBrasil
   \<and> snd (fetchFromBrasilAPI net_unavailable ''01001000'') \<noteq> None"
proof -
  have v1: "net_not_json (''https://viacep.com.br/ws/'' @ ''01001000'' @ ''/json/'')
     = Response 200 ''200 OK'' (ReadOk (Malformed ''unexpected end of JSON input''))"
    by (simp add: net_not_json_def)
  have v2: "snd (UnmarshalViaCep (Malformed ''unexpected end of JSON input'') zeroViaCep)
       = Some (ErrorString ''unexpected end of JSON input'')"
    by (simp add: UnmarshalViaCep_def)
  have b1: "net_array_body (''https://brasilapi.com.br/api/cep/v1/'' @ ''01001000'')
       = Response 200 ''200 OK'' (ReadOk (Document (JArray [])))"
    by (simp add: net_array_body_def)
  have b2: "snd (UnmarshalBrasil (Document (JArray [])) zeroBrasil)
       = Some (ErrorString ''json: cannot unmarshal array into Go value of type main.AddressBrasil'')"
    by (simp add: UnmarshalBrasil_def)
  have a1: "net_unavailable (''https://brasilapi.com.br/api/cep/v1/'' @ ''01001000'')
       = Response 503 ''503 Service Unavailable'' (ReadOk (Malformed html_syntax_error))"
    by (simp add: net_unavailable_def)
  have a2: "snd (UnmarshalBrasil (Malformed html_syntax_error) zeroBrasil)
       = Some (ErrorString html_syntax_error)"
    by (simp add: UnmarshalBrasil_def)
  from C9_decode_failure_is_error [of net_not_json "''01001000''" 200 "''200 OK''"
      "Malformed ''unexpected end of JSON input''" "ErrorString ''unexpected end of JSON input''"
      net_array_body "''200 OK''" "Document (JArray [])"
      "ErrorString ''json: cannot unmarshal array into Go value of type main.AddressBrasil''"
      net_unavailable 503 "''503 Service Unavailable''" "Malformed html_syntax_error"
      "ErrorString html_syntax_error"]
    v1 v2 b1 b2 a1 a2
  show ?thesis by blast
qed

text \<open>
  C10, as stated, fails: an empty array is valid JSON and has none of the address fields,
  and the decoder rejects it, so \<^verbatim>\<open>fetchFromViaCep\<close> returns an error and the handler
  answers 500.
\<close>

theorem C10_array_body_counterexample:
  "no_address_fields (JArray [])
   \<and> fetchFromViaCep net_array_body ''01001000''
       = (zeroViaCep,
          Some (ErrorString ''error reading response: json: cannot unmarshal array into Go value of type main.AddressViaCep''))
   \<and> status (respond (call_client ViaCep net_array_body ''01001000'') fresh_writer) = Some 500"
  by code_simp

text \<open>
  C10, amended. For every ViaCep response whose body is a JSON object or \<^verbatim>\<open>null\<close> and
  has none of the expected address fields, \<^verbatim>\<open>fetchFromViaCep\<close> returns the zero address
  and no error, and the response mapper answers that message with status 200 and the
  envelope whose address fields are all empty strings; and for a request for that postal
  code in which ViaCep's message is the first delivered, the handler returns with that
  response.
\<close>

theorem C10_object_without_address_fields:
  assumes "net (''https://viacep.com.br/ws/'' @ c @ ''/json/'') = Response code st (ReadOk (Document doc))"
    and "object_or_null doc" and "no_address_fields doc"
  shows "fetchFromViaCep net c = (zeroViaCep, None)
         \<and> status (respond (call_client ViaCep net c) fresh_writer) = Some 200
         \<and> written (respond (call_client ViaCep net c) fresh_writer)
             = [JsonLine (JObject [(''origem'', JString ''viacep''),
                                   (''data'', JObject [(''cep'', JString []), (''uf'', JString []),
                                                       (''localidade'', JString []),
                                                       (''bairro'', JString []),
                                                       (''logradouro'', JString [])])])]
         \<and> (accepted path \<and> strings_Split path (CHR ''/'') ! 2 = c \<longrightarrow>
              (let f = exec (viacep_first net @ finish netB netV) (init path) in
                 handler f = Returned
                 \<and> hd (delivered f) = (ViaCep, call_client ViaCep net c)
                 \<and> status (w f) = Some 200
                 \<and> header (w f) ''Content-Type'' = Some ''application/json''
                 \<and> written (w f)
                     = [JsonLine (JObject [(''origem'', JString ''viacep''),
                                           (''data'', JObject [(''cep'', JString []), (''uf'', JString []),
                                                               (''localidade'', JString []),
                                                               (''bairro'', JString []),
                                                               (''logradouro'', JString [])])])]))"
proof -
  let ?doc = "JObject [(''origem'', JString ''viacep''),
                       (''data'', JObject [(''cep'', JString []), (''uf'', JString []),
                                           (''localidade'', JString []),
                                           (''bairro'', JString []),
                                           (''logradouro'', JString [])])]"
  have fz: "fetchFromViaCep net c = (zeroViaCep, None)"
    using assms by (simp add: fetchFromViaCep_def Unmarshal_no_address_fields)
  then have m: "call_client ViaCep net c = \<lparr>Origem = ''viacep'', Data = OfViaCep zeroViaCep, Err = None\<rparr>"
    by (simp add: resultViaCep_def)
  have r: "status (respond (call_client ViaCep net c) fresh_writer) = Some 200
      \<and> header (respond (call_client ViaCep net c) fresh_writer) ''Content-Type''
          = Some ''application/json''
      \<and> written (respond (call_client ViaCep net c) fresh_writer) = [JsonLine ?doc]"
    unfolding m by (simp add: writer_defs envelope_def MarshalViaCep_def zeroViaCep_def)
  have run: "let f = exec (viacep_first net @ finish netB netV) (init path) in
               handler f = Returned
               \<and> hd (delivered f) = (ViaCep, call_client ViaCep net c)
               \<and> status (w f) = Some 200
               \<and> header (w f) ''Content-Type'' = Some ''application/json''
               \<and> written (w f) = [JsonLine ?doc]"
    if a: "accepted path" and c: "strings_Split path (CHR ''/'') ! 2 = c"
  proof -
    define s where "s = exec (viacep_first net) (init path)"
    define f where "f = exec (viacep_first net @ finish netB netV) (init path)"
    have fs: "f = exec (finish netB netV) s"
      by (simp add: f_def s_def exec_append)
    have i: "invariant f" and h: "handler f = Returned"
      using race_completes [OF a, where as = "viacep_first net" and netB = netB and netV = netV]
      by (simp_all add: f_def)
    have "accepted (request_path f)"
      using a by (simp add: f_def exec_request_path init_def)
    from returned_accepted(3) [OF i this h]
    have rw: "w f = respond (snd (hd (delivered f))) fresh_writer" .
    have ds: "delivered s = [(ViaCep, call_client ViaCep net c)]"
      using viacep_first_delivers [OF a, of net] c by (simp add: s_def)
    then have "hd (delivered f) = hd (delivered s)"
      unfolding fs by (intro first_delivery_stays) simp
    with ds have hd: "hd (delivered f) = (ViaCep, call_client ViaCep net c)"
      by simp
    with rw have "w f = respond (call_client ViaCep net c) fresh_writer"
      by simp
    with h hd r show ?thesis
      unfolding f_def [symmetric] Let_def by simp
  qed
  from fz r run show ?thesis
    by blast
qed

text \<open>An instance: ViaCep's body for an unknown postal code.\<close>

theorem C10_object_without_address_fields_witness:
  "net_unknown_cep (''https://viacep.com.br/ws/'' @ ''99999999'' @ ''/json/'')
     = Response 200 ''200 OK'' (ReadOk (Document (JObject [(''erro'', JBool True)])))
   \<and> object_or_null (JObject [(''erro'', JBool True)])
   \<and> no_address_fields (JObject [(''erro'', JBool True)])
   \<and> accepted ''/cep/99999999''
   \<and> strings_Split ''/cep/99999999'' (CHR ''/'') ! 2 = ''99999999''
   \<and> fetchFromViaCep net_unknown_cep ''99999999'' = (zeroViaCep, None)
   \<and> handler (exec (viacep_first net_unknown_cep @ finish net_canceled net_canceled)
                 (init ''/cep/99999999'')) = Returned
   \<and> status (w (exec (viacep_first net_unknown_cep @ finish net_canceled net_canceled)
                    (init ''/cep/99999999''))) = Some 200
   \<and> written (w (exec (viacep_first net_unknown_cep @ finish net_canceled net_canceled)
                     (init ''/cep/99999999'')))
       = [JsonLine (JObject [(''origem'', JString ''viacep''),
                             (''data'', JObject [(''cep'', JString []), (''uf'', JString []),
                                                 (''localidade'', JString []),
                                                 (''bairro'', JString []),
                                                 (''logradouro'', JString [])])])]"
proof -
  have n: "net_unknown_cep (''https://viacep.com.br/ws/'' @ ''99999999'' @ ''/json/'')
             = Response 200 ''200 OK'' (ReadOk (Document (JObject [(''erro'', JBool True)])))"
    by (simp add: net_unknown_cep_def)
  have o: "object_or_null (JObject [(''erro'', JBool True)])"
    by simp
  have f: "no_address_fields (JObject [(''erro'', JBool True)])"
    by code_simp
  have a: "accepted ''/cep/99999999''"
    by code_simp
  have c: "strings_Split ''/cep/99999999'' (CHR ''/'') ! 2 = ''99999999''"
    by code_simp
  note t = C10_object_without_address_fields [of net_unknown_cep "''99999999''" 200 "''200 OK''"
      "JObject [(''erro'', JBool True)]" "''/cep/99999999''" net_canceled net_canceled,
      OF n o f, unfolded Let_def]
  from t n o f a c show ?thesis
    by blast
qed

end
